theory Spec2Isabelle
  imports Complex_Main "HOL-Library.Word" "HOL-Library.Log_Nat"
begin

section \<open>Errors, images and the caller's heap\<close>

text \<open>
  The inference class of \<^verbatim>\<open>src/inference.py\<close> is embedded function by function.
  Every \<^verbatim>\<open>assert\<close> and every raise of a library call that the code
  can reach is a value \<open>Inl e\<close> of the result type.
\<close>

datatype error = AssertionError | IndexError | ValueError | ZeroDivisionError | LoadError

text \<open>
  A PIL image is observed by the code through \<^verbatim>\<open>im.size\<close> (width, height),
  \<^verbatim>\<open>np.asarray(im.convert('RGB'))\<close> (height x width x 3 bytes) and
  \<^verbatim>\<open>np.asarray(im.convert('L'))\<close> (height x width bytes); the record holds
  these three observations.
\<close>

record image =
  im_size :: "int \<times> int"
  im_rgb :: "8 word list list list"
  im_gray :: "8 word list list"

text \<open>
  Python lists of images are mutable objects: the heap maps the address of a list
  object to its current content. \<^verbatim>\<open>Image.resize\<close> with Lanczos resampling is an
  external collaborator, a parameter \<open>resize\<close> of the functions that call it; it
  returns a new image object or raises.
\<close>

type_synonym addr = nat
type_synonym heap = "addr \<Rightarrow> image list"
type_synonym resizer = "image \<Rightarrow> int \<times> int \<Rightarrow> error + image"

section \<open>Input preparation: the resize loops\<close>

text \<open>
  \<^verbatim>\<open>for i,im in enumerate(xs): if im.size != (width, height): xs[i] = xs[i].resize(...)\<close>
  The loop assigns into the list it iterates over; entry \<open>i\<close> is read once, at step \<open>i\<close>.
  When a resize raises, the loop stops and the entries assigned so far stay assigned:
  the result is the raised error, if any, and the list as the loop left it.
\<close>

fun resize_loop ::
  "resizer \<Rightarrow> int \<times> int \<Rightarrow> nat \<Rightarrow> nat \<Rightarrow> image list \<Rightarrow> error option \<times> image list" where
  "resize_loop resize wh i 0 xs = (None, xs)"
| "resize_loop resize wh i (Suc n) xs =
     (if i < length xs \<and> im_size (xs ! i) \<noteq> wh
      then (case resize (xs ! i) wh of
              Inl e \<Rightarrow> (Some e, xs)
            | Inr im \<Rightarrow> resize_loop resize wh (Suc i) n (xs[i := im]))
      else resize_loop resize wh (Suc i) n xs)"

definition resize_list :: "resizer \<Rightarrow> int \<times> int \<Rightarrow> image list \<Rightarrow> error option \<times> image list" where
  "resize_list resize wh xs = resize_loop resize wh 0 (length xs) xs"

text \<open>What one iteration leaves in slot \<open>i\<close> when its resize succeeds.\<close>

definition resized :: "resizer \<Rightarrow> int \<times> int \<Rightarrow> image \<Rightarrow> image" where
  "resized resize wh im =
     (if im_size im \<noteq> wh then (case resize im wh of Inr im' \<Rightarrow> im' | Inl e \<Rightarrow> im) else im)"

definition resize_ok :: "resizer \<Rightarrow> int \<times> int \<Rightarrow> image \<Rightarrow> bool" where
  "resize_ok resize wh im = (im_size im \<noteq> wh \<longrightarrow> \<not> isl (resize im wh))"

lemma resize_loop_length: "length (snd (resize_loop resize wh i n xs)) = length xs"
  by (induction n arbitrary: i xs) (auto split: sum.splits)

lemma resize_loop_eq:
  "i + n = length xs \<Longrightarrow> \<forall>im \<in> set (drop i xs). resize_ok resize wh im \<Longrightarrow>
   resize_loop resize wh i n xs = (None, take i xs @ map (resized resize wh) (drop i xs))"
proof (induction n arbitrary: i xs)
  case 0
  then show ?case by simp
next
  case (Suc n)
  have il: "i < length xs" using Suc.prems by simp
  have dr: "drop i xs = xs ! i # drop (Suc i) xs"
    using il by (simp add: Cons_nth_drop_Suc)
  have ok: "resize_ok resize wh (xs ! i)" and oks: "\<forall>im \<in> set (drop (Suc i) xs). resize_ok resize wh im"
    using Suc.prems(2) unfolding dr by simp_all
  define ys where "ys = xs[i := resized resize wh (xs ! i)]"
  have len: "Suc i + n = length ys" using Suc.prems by (simp add: ys_def)
  have t: "take (Suc i) ys = take i xs @ [resized resize wh (xs ! i)]"
    using il by (simp add: ys_def take_Suc_conv_app_nth)
  have d: "drop (Suc i) ys = drop (Suc i) xs" by (simp add: ys_def)
  have step: "resize_loop resize wh i (Suc n) xs = resize_loop resize wh (Suc i) n ys"
  proof (cases "im_size (xs ! i) \<noteq> wh")
    case True
    then obtain im where im: "resize (xs ! i) wh = Inr im"
      using ok by (cases "resize (xs ! i) wh") (auto simp: resize_ok_def)
    then show ?thesis using True il by (simp add: ys_def resized_def)
  next
    case False
    then have "ys = xs" by (simp add: ys_def resized_def)
    then show ?thesis using False by simp
  qed
  have "resize_loop resize wh (Suc i) n ys
          = (None, take (Suc i) ys @ map (resized resize wh) (drop (Suc i) ys))"
    using Suc.IH [OF len] oks unfolding d by simp
  then show ?case unfolding step t d dr by simp
qed

lemma resize_list_map:
  "\<forall>im \<in> set xs. resize_ok resize wh im \<Longrightarrow>
   resize_list resize wh xs = (None, map (resized resize wh) xs)"
  using resize_loop_eq [of 0 "length xs" xs resize wh] by (simp add: resize_list_def)

section \<open>Input preparation: the hint and mask tensors\<close>

text \<open>
  Tensors are nested lists, outermost axis first; \<open>b,h,w,c\<close> is a list over the batch of
  rows of pixels of channel values. A floating-point value is modelled by the rational
  number it denotes; the arithmetic of \<^verbatim>\<open>prepare_inputs\<close> is exact on these (its
  comparisons with 0.5 are far from any rounding error: the bytes nearest to the
  threshold rescale to about 0.498 and 0.506).
\<close>

type_synonym tensor4 = "rat list list list list"

definition map4 :: "('a \<Rightarrow> 'b) \<Rightarrow> 'a list list list list \<Rightarrow> 'b list list list list" where
  "map4 f = map (map (map (map f)))"

definition elems4 :: "'a list list list list \<Rightarrow> 'a list" where
  "elems4 t = concat (concat (concat t))"

text \<open>\<^verbatim>\<open>.astype(jnp.float32)\<close> of a byte: every byte is a float32 value.\<close>

definition to_float :: "8 word \<Rightarrow> rat" where
  "to_float v = of_nat (unat v)"

text \<open>\<^verbatim>\<open>np.asarray(x.convert('RGB'))\<close>, stacked along a new axis 0, as float32.\<close>

definition hint_array :: "image list \<Rightarrow> tensor4" where
  "hint_array xs = map (\<lambda>x. map (map (map to_float)) (im_rgb x)) xs"

text \<open>\<^verbatim>\<open>np.asarray(x.convert('L'))\<close> with a new last axis of length 1, stacked, as float32.\<close>

definition mask_array :: "image list \<Rightarrow> tensor4" where
  "mask_array xs = map (\<lambda>x. map (map (\<lambda>v. [to_float v])) (im_gray x)) xs"

text \<open>\<^verbatim>\<open>(x / 255) * 2 - 1\<close>\<close>

definition scale_pm1 :: "rat \<Rightarrow> rat" where
  "scale_pm1 x = (x / 255) * 2 - 1"

text \<open>
  \<^verbatim>\<open>mask = mask.at[mask < 0.5].set(0)\<close> and then
  \<^verbatim>\<open>mask = mask.at[mask >= 0.5].set(1)\<close>: two elementwise updates, the second one
  reading the result of the first.
\<close>

definition set_lt_half :: "rat \<Rightarrow> rat" where
  "set_lt_half x = (if x < 1/2 then 0 else x)"

definition set_ge_half :: "rat \<Rightarrow> rat" where
  "set_ge_half x = (if x \<ge> 1/2 then 1 else x)"

definition binarize :: "tensor4 \<Rightarrow> tensor4" where
  "binarize msk = map4 set_ge_half (map4 set_lt_half msk)"

text \<open>
  \<^verbatim>\<open>hint = hint * (mask < 0.5)\<close>: the comparison gives a boolean tensor, read as
  1 and 0 by the product; the mask's last axis has length 1 and is broadcast over the
  channels of the hint.
\<close>

definition lt_half :: "rat \<Rightarrow> rat" where
  "lt_half m = (if m < 1/2 then 1 else 0)"

fun bcast_mul :: "rat list \<Rightarrow> rat list \<Rightarrow> rat list" where
  "bcast_mul px [v] = map (\<lambda>c. c * v) px"
| "bcast_mul px ms = map2 (*) px ms"

definition apply_mask :: "tensor4 \<Rightarrow> tensor4 \<Rightarrow> tensor4" where
  "apply_mask hint msk = map2 (map2 (map2 bcast_mul)) hint (map4 lt_half msk)"

text \<open>\<^verbatim>\<open>x.transpose((0,3,1,2))\<close>: \<open>b,h,w,c\<close> to \<open>b,c,h,w\<close>.\<close>

definition to_channel_first :: "tensor4 \<Rightarrow> tensor4" where
  "to_channel_first t = map (\<lambda>img. transpose (map transpose img)) t"

text \<open>The mask value that \<^verbatim>\<open>prepare_inputs\<close> derives from one grayscale byte.\<close>

definition mask_of_pixel :: "8 word \<Rightarrow> rat" where
  "mask_of_pixel v = set_ge_half (set_lt_half (scale_pm1 (to_float v)))"

lemma set_ge_lt_half: "set_ge_half (set_lt_half x) = (if x < 1/2 then 0 else 1)"
  by (simp add: set_ge_half_def set_lt_half_def)

lemma binarize_map4: "binarize msk = map4 (\<lambda>x. if x < 1/2 then 0 else 1) msk"
  by (simp add: binarize_def map4_def set_ge_lt_half comp_def)

lemma set_elems4_map4: "set (elems4 (map4 f t)) = f ` set (elems4 t)"
  by (auto simp: elems4_def map4_def)

lemma binarized_mask_of_pixel:
  "binarize (map4 scale_pm1 (mask_array xs)) =
   map (\<lambda>x. map (map (\<lambda>v. [mask_of_pixel v])) (im_gray x)) xs"
  by (simp add: binarize_def map4_def mask_array_def mask_of_pixel_def comp_def)

subsection \<open>Binarization of the mask\<close>

text \<open>
  Claim C3. Whatever the mask tensor holds, after the two updates of the binarization
  step every element is exactly 0 or exactly 1: an element below 0.5 has become 0, an
  element at or above 0.5 has become 1, and no other value is left in the tensor.
\<close>

theorem binarize_zero_one:
  "binarize t = map4 (\<lambda>x. if x < 1/2 then 0 else 1) t \<and> set (elems4 (binarize t)) \<subseteq> {0, 1}"
  by (auto simp: binarize_map4 set_elems4_map4)

lemma scale_pm1_ge_half: "(scale_pm1 x \<ge> 1/2) = (x \<ge> 191.25)"
  by (simp add: scale_pm1_def field_simps)

text \<open>
  Claim C4. The threshold 0.5 is compared with the value already rescaled by
  \<open>(x/255)*2 - 1\<close>, not with the raw byte: a grayscale byte \<open>v\<close> gives mask value 1
  exactly when its rescaled value is at least 0.5, which is exactly when \<open>v \<ge> 191.25\<close>,
  and gives 0 otherwise. The bytes 128 and 191 (rescaled values about 0.004 and 0.498)
  give 0, the byte 192 gives 1.
\<close>

theorem mask_threshold_normalized:
  "(mask_of_pixel v = 1) = (scale_pm1 (to_float v) \<ge> 1/2) \<and>
   (scale_pm1 (to_float v) \<ge> 1/2) = (to_float v \<ge> 191.25) \<and>
   mask_of_pixel v = (if to_float v \<ge> 191.25 then 1 else 0) \<and>
   mask_of_pixel 128 = 0 \<and> mask_of_pixel 191 = 0 \<and> mask_of_pixel 192 = 1"
proof -
  have a: "(scale_pm1 (to_float v) < 1/2) = (\<not> to_float v \<ge> 191.25)"
    using scale_pm1_ge_half [of "to_float v"] by linarith
  have b: "mask_of_pixel 128 = 0 \<and> mask_of_pixel 191 = 0 \<and> mask_of_pixel 192 = 1"
    by (simp add: mask_of_pixel_def set_ge_lt_half scale_pm1_def to_float_def)
  show ?thesis
    unfolding mask_of_pixel_def set_ge_lt_half a scale_pm1_ge_half
    using b by (simp add: mask_of_pixel_def set_ge_lt_half)
qed

subsection \<open>Masking the hint\<close>

lemma map2_idem:
  "\<forall>y \<in> set ys. \<forall>x. f (f x y) y = f x y \<Longrightarrow> map2 f (map2 f xs ys) ys = map2 f xs ys"
proof (induction xs arbitrary: ys)
  case Nil
  then show ?case by simp
next
  case (Cons x xs)
  then show ?case by (cases ys) auto
qed

lemma bcast_mul_zip: "length ms \<noteq> 1 \<Longrightarrow> bcast_mul px ms = map2 (*) px ms"
proof (cases ms)
  case Nil
  then show ?thesis by simp
next
  case (Cons v vs)
  assume "length ms \<noteq> 1"
  then obtain w ws where "vs = w # ws" using Cons by (cases vs) auto
  then show ?thesis using Cons by simp
qed

lemma bcast_mul_idem:
  assumes idem: "\<forall>v \<in> set ms. v * v = v"
  shows "bcast_mul (bcast_mul px ms) ms = bcast_mul px ms"
proof (cases "length ms = 1")
  case True
  then obtain v where "ms = [v]" by (cases ms) auto
  then show ?thesis using idem by (simp add: mult.assoc)
next
  case False
  have "map2 (*) (map2 (*) px ms) ms = map2 (*) px ms"
    by (rule map2_idem) (use idem in \<open>auto simp: mult.assoc\<close>)
  then show ?thesis using False by (simp add: bcast_mul_zip)
qed

lemma lt_half_idem: "\<forall>v \<in> set (map lt_half ms). v * v = v"
  by (auto simp: lt_half_def)

text \<open>
  Claim C7. Masking the hint is idempotent: for every hint tensor and every mask tensor
  (binarized or not), masking the already masked hint once more with the same mask
  changes nothing.
\<close>

theorem apply_mask_idempotent:
  "apply_mask (apply_mask hint msk) msk = apply_mask hint msk"
  unfolding apply_mask_def map4_def
  by (intro map2_idem ballI allI; clarsimp)+ (simp add: bcast_mul_idem lt_half_idem)

section \<open>The inference object\<close>

text \<open>
  \<^verbatim>\<open>class InferenceUNetPseudo3D\<close>. The networks, the tokenizer and the scheduler
  are objects of external libraries: their types are parameters (\<open>'net\<close>, \<open>'tok\<close>,
  \<open>'sch\<close>), and so are the parameter trees \<open>'w\<close> and the scheduler state \<open>'st\<close>.
  \<^verbatim>\<open>self.params\<close> is a dictionary from component names to parameter trees; its
  \<^verbatim>\<open>'scheduler'\<close> entry holds the scheduler state.
\<close>

datatype dtype = Float32 | Float16 | BFloat16

datatype scheduler_cls =
  FlaxDDIMScheduler | FlaxDDPMScheduler | FlaxPNDMScheduler | FlaxLMSDiscreteScheduler
| FlaxDPMSolverMultistepScheduler | FlaxKarrasVeScheduler | FlaxScoreSdeVeScheduler

datatype ('w, 'st) entry = Weights 'w | SchedulerState 'st

record ('net, 'tok, 'sch, 'w, 'st) inference =
  low_vram :: bool
  dtype :: dtype
  model_path :: string
  params :: "string \<rightharpoonup> ('w, 'st) entry"
  unet :: 'net
  vae :: 'net
  text_encoder :: 'net
  tokenizer :: 'tok
  scheduler :: 'sch
  vae_scale_factor :: int
  device_count :: nat

text \<open>
  \<^verbatim>\<open>scheduler_cls.from_pretrained(model_path, subfolder = ..., dtype = ...)\<close>: reads
  the scheduler's configuration from disk and returns the scheduler with its state, or
  raises.
\<close>

type_synonym ('sch, 'st) scheduler_loader =
  "scheduler_cls \<Rightarrow> string \<Rightarrow> string \<Rightarrow> dtype \<Rightarrow> error + ('sch \<times> 'st)"

text \<open>
  \<^verbatim>\<open>set_scheduler\<close>: two assignments after the load. When the load raises, no
  assignment has happened and the error is the result.
\<close>

definition set_scheduler ::
  "('sch, 'st) scheduler_loader \<Rightarrow> ('net, 'tok, 'sch, 'w, 'st) inference \<Rightarrow> scheduler_cls
     \<Rightarrow> error + ('net, 'tok, 'sch, 'w, 'st) inference" where
  "set_scheduler from_pretrained self cls =
     (case from_pretrained cls (model_path self) ''scheduler'' Float32 of
        Inl e \<Rightarrow> Inl e
      | Inr (sch, st) \<Rightarrow>
          Inr (self\<lparr>scheduler := sch,
                    params := (params self)(''scheduler'' \<mapsto> SchedulerState st)\<rparr>))"

text \<open>
  Claim C8. For every scheduler variant, a call of \<^verbatim>\<open>set_scheduler\<close> that returns
  has replaced the scheduler object and the \<^verbatim>\<open>'scheduler'\<close> entry of the parameter
  bundle by what the loader returned, and nothing else: the \<^verbatim>\<open>'unet'\<close>,
  \<^verbatim>\<open>'vae'\<close> and \<^verbatim>\<open>'text_encoder'\<close> entries, every other entry and every other
  field of the object are as before.
\<close>

theorem set_scheduler_frame:
  "set_scheduler from_pretrained self cls = Inr self' \<Longrightarrow>
     (\<exists>sch st. from_pretrained cls (model_path self) ''scheduler'' Float32 = Inr (sch, st) \<and>
        self' = self\<lparr>scheduler := sch,
                      params := (params self)(''scheduler'' \<mapsto> SchedulerState st)\<rparr>) \<and>
     params self' ''unet'' = params self ''unet'' \<and>
     params self' ''vae'' = params self ''vae'' \<and>
     params self' ''text_encoder'' = params self ''text_encoder'' \<and>
     (\<forall>k. k \<noteq> ''scheduler'' \<longrightarrow> params self' k = params self k) \<and>
     low_vram self' = low_vram self \<and> dtype self' = dtype self \<and>
     model_path self' = model_path self \<and> unet self' = unet self \<and> vae self' = vae self \<and>
     text_encoder self' = text_encoder self \<and> tokenizer self' = tokenizer self \<and>
     vae_scale_factor self' = vae_scale_factor self \<and> device_count self' = device_count self \<and>
     inference.more self' = inference.more self"
  by (auto simp: set_scheduler_def split: sum.splits)

theorem set_scheduler_frame_witness:
  "set_scheduler (\<lambda>cls path sub dt. Inr (cls, 7::nat))
     \<lparr>low_vram = True, dtype = Float16, model_path = ''m'',
      params = [''unet'' \<mapsto> Weights (1::nat), ''vae'' \<mapsto> Weights 2,
                ''text_encoder'' \<mapsto> Weights 3, ''scheduler'' \<mapsto> SchedulerState 0],
      unet = (), vae = (), text_encoder = (), tokenizer = (),
      scheduler = FlaxDDIMScheduler, vae_scale_factor = 8, device_count = 1\<rparr>
     FlaxPNDMScheduler
   = Inr \<lparr>low_vram = True, dtype = Float16, model_path = ''m'',
      params = [''unet'' \<mapsto> Weights (1::nat), ''vae'' \<mapsto> Weights 2,
                ''text_encoder'' \<mapsto> Weights 3, ''scheduler'' \<mapsto> SchedulerState 7],
      unet = (), vae = (), text_encoder = (), tokenizer = (),
      scheduler = FlaxPNDMScheduler, vae_scale_factor = 8, device_count = 1\<rparr> \<and>
   params \<lparr>low_vram = True, dtype = Float16, model_path = ''m'',
      params = [''unet'' \<mapsto> Weights (1::nat), ''vae'' \<mapsto> Weights 2,
                ''text_encoder'' \<mapsto> Weights 3, ''scheduler'' \<mapsto> SchedulerState (7::nat)],
      unet = (), vae = (), text_encoder = (), tokenizer = (),
      scheduler = FlaxPNDMScheduler, vae_scale_factor = 8, device_count = 1\<rparr> ''unet''
   = Some (Weights 1)"
proof -
  let ?ld = "\<lambda>(cls::scheduler_cls) (path::string) (sub::string) (dt::dtype).
               (Inr (cls, 7::nat) :: error + scheduler_cls \<times> nat)"
  let ?self = "\<lparr>low_vram = True, dtype = Float16, model_path = ''m'',
      params = [''unet'' \<mapsto> Weights (1::nat), ''vae'' \<mapsto> Weights 2,
                ''text_encoder'' \<mapsto> Weights 3, ''scheduler'' \<mapsto> SchedulerState (0::nat)],
      unet = (), vae = (), text_encoder = (), tokenizer = (),
      scheduler = FlaxDDIMScheduler, vae_scale_factor = 8, device_count = 1\<rparr>"
  obtain self' where r: "set_scheduler ?ld ?self FlaxPNDMScheduler = Inr self'"
    by (simp add: set_scheduler_def)
  from set_scheduler_frame [OF r] have u: "params self' ''unet'' = Some (Weights 1)"
    by simp
  from r have "self' = \<lparr>low_vram = True, dtype = Float16, model_path = ''m'',
      params = [''unet'' \<mapsto> Weights (1::nat), ''vae'' \<mapsto> Weights 2,
                ''text_encoder'' \<mapsto> Weights 3, ''scheduler'' \<mapsto> SchedulerState 7],
      unet = (), vae = (), text_encoder = (), tokenizer = (),
      scheduler = FlaxPNDMScheduler, vae_scale_factor = 8, device_count = 1\<rparr>"
    by (auto simp: set_scheduler_def)
  with r u show ?thesis by simp
qed

section \<open>The generation request and its validation\<close>

text \<open>
  The arguments of \<^verbatim>\<open>generate\<close>. A prompt is a string or a list of strings; an image
  argument is one image or a list object of the caller's, given by its address; the mask
  may be \<^verbatim>\<open>None\<close>.
\<close>

datatype str_arg = Str string | StrList "string list"

datatype img_arg = Img image | ImgList addr

record request =
  prompt :: str_arg
  hint_image :: img_arg
  inference_steps :: int
  mask_image :: "img_arg option"
  neg_prompt :: str_arg
  cfg :: rat
  num_frames :: int
  width :: int
  height :: int
  seed :: int

text \<open>
  After normalisation an image list is either a list that \<^verbatim>\<open>generate\<close> built itself
  (\<^verbatim>\<open>[ image ] * batch_size\<close>, unknown to the caller) or the caller's list object.
\<close>

datatype img_list = Local "image list" | Caller addr

fun load :: "heap \<Rightarrow> img_list \<Rightarrow> image list" where
  "load h (Local xs) = xs"
| "load h (Caller a) = h a"

text \<open>\<^verbatim>\<open>Image.new('L', size, color = 0)\<close>\<close>

definition image_new_L :: "int \<times> int \<Rightarrow> image" where
  "image_new_L sz =
     \<lparr>im_size = sz,
      im_rgb = replicate (nat (snd sz)) (replicate (nat (fst sz)) [0, 0, 0]),
      im_gray = replicate (nat (snd sz)) (replicate (nat (fst sz)) 0)\<rparr>"

record validated =
  v_prompt :: "string list"
  v_neg_prompt :: "string list"
  v_hint :: img_list
  v_mask :: img_list
  v_batch_size :: nat

text \<open>
  Lines 191 to 209 of \<^verbatim>\<open>generate\<close>: the assertions and the normalisation of the
  arguments, in the order of the source. The \<^verbatim>\<open>assert\<close> statements are executed
  (the interpreter does not run with \<^verbatim>\<open>-O\<close>). \<^verbatim>\<open>hint_image[0]\<close> raises
  IndexError on an empty list, and \<^verbatim>\<open>%\<close> raises on a zero device count.
\<close>

definition validate :: "nat \<Rightarrow> heap \<Rightarrow> request \<Rightarrow> error + validated" where
  "validate dev_count h r =
    (if \<not> inference_steps r > 0 then Inl AssertionError
     else if \<not> num_frames r > 0 then Inl AssertionError
     else if \<not> width r mod 32 = 0 then Inl AssertionError
     else if \<not> height r mod 32 = 0 then Inl AssertionError
     else
       let ps = (case prompt r of Str p \<Rightarrow> [p] | StrList ps \<Rightarrow> ps);
           batch_size = length ps
       in
       if dev_count = 0 then Inl ZeroDivisionError
       else if \<not> batch_size mod dev_count = 0 then Inl AssertionError
       else
         let hint = (case hint_image r of
                       Img im \<Rightarrow> Local (replicate batch_size im)
                     | ImgList a \<Rightarrow> Caller a)
         in
         if \<not> length (load h hint) = batch_size then Inl AssertionError
         else
           case (case mask_image r of
                   None \<Rightarrow> (case load h hint of
                               [] \<Rightarrow> Inl IndexError
                             | im # _ \<Rightarrow> Inr (Img (image_new_L (im_size im))))
                 | Some m \<Rightarrow> Inr m) of
             Inl e \<Rightarrow> Inl e
           | Inr m \<Rightarrow>
               let msk = (case m of
                            Img im \<Rightarrow> Local (replicate batch_size im)
                          | ImgList a \<Rightarrow> Caller a)
               in
               if \<not> length (load h msk) = batch_size then Inl AssertionError
               else
                 let ns = (case neg_prompt r of
                             Str n \<Rightarrow> replicate batch_size n
                           | StrList ns \<Rightarrow> ns)
                 in
                 if \<not> length ns = batch_size then Inl AssertionError
                 else Inr \<lparr>v_prompt = ps, v_neg_prompt = ns, v_hint = hint,
                           v_mask = msk, v_batch_size = batch_size\<rparr>)"

section \<open>Input preparation as a whole\<close>

text \<open>
  The state that a call of \<^verbatim>\<open>generate\<close> can change or act on: the caller's heap,
  and a trace that records the entry into \<^verbatim>\<open>prepare_inputs\<close> and the dispatch to
  the devices.
\<close>

datatype event = PrepareInputs | Dispatch

record gstate =
  heap :: heap
  trace :: "event list"

type_synonym tokenizer_fn = "string list \<Rightarrow> error + int list list"

text \<open>One resize loop, on a list of \<^verbatim>\<open>generate\<close>'s own or on the caller's list.\<close>

definition resize_arg ::
  "resizer \<Rightarrow> int \<times> int \<Rightarrow> img_list \<Rightarrow> heap \<Rightarrow> error option \<times> img_list \<times> heap" where
  "resize_arg resize wh l h =
     (case l of
        Local xs \<Rightarrow> (case resize_list resize wh xs of (e, ys) \<Rightarrow> (e, Local ys, h))
      | Caller a \<Rightarrow> (case resize_list resize wh (h a) of (e, ys) \<Rightarrow> (e, Caller a, h(a := ys))))"

text \<open>
  \<^verbatim>\<open>prepare_inputs\<close>: tokenize both prompt lists, run the two resize loops, build
  the tensors. \<^verbatim>\<open>jnp.concatenate\<close> raises ValueError on an empty list of arrays.
\<close>

definition prepare_inputs ::
  "tokenizer_fn \<Rightarrow> resizer \<Rightarrow> string list \<Rightarrow> string list \<Rightarrow> img_list \<Rightarrow> img_list \<Rightarrow> int \<Rightarrow> int
     \<Rightarrow> gstate \<Rightarrow> (error + int list list \<times> int list list \<times> tensor4 \<times> tensor4) \<times> gstate" where
  "prepare_inputs tok resize ps ns hint msk w h s =
    (let s0 = s\<lparr>trace := trace s @ [PrepareInputs]\<rparr> in
     case tok ps of
       Inl e \<Rightarrow> (Inl e, s0)
     | Inr tokens \<Rightarrow>
     case tok ns of
       Inl e \<Rightarrow> (Inl e, s0)
     | Inr neg_tokens \<Rightarrow>
     case resize_arg resize (w, h) hint (heap s0) of
       (Some e, hint1, h1) \<Rightarrow> (Inl e, s0\<lparr>heap := h1\<rparr>)
     | (None, hint1, h1) \<Rightarrow>
     case resize_arg resize (w, h) msk h1 of
       (Some e, msk1, h2) \<Rightarrow> (Inl e, s0\<lparr>heap := h2\<rparr>)
     | (None, msk1, h2) \<Rightarrow>
       let s1 = s0\<lparr>heap := h2\<rparr>; hs = load h2 hint1; ms = load h2 msk1 in
       if hs = [] then (Inl ValueError, s1)
       else if ms = [] then (Inl ValueError, s1)
       else
         let hint_t = map4 scale_pm1 (hint_array hs);
             mask_t = binarize (map4 scale_pm1 (mask_array ms));
             hint_m = apply_mask hint_t mask_t
         in (Inr (tokens, neg_tokens, to_channel_first hint_m, to_channel_first mask_t), s1))"

section \<open>Floating-point rounding and classifier-free guidance\<close>

text \<open>
  Where a claim depends on rounding, the rounding is written out. The value of an
  element of a floating-point array is a rational number, an infinity or NaN (the two
  zeros are not distinguished). A format has \<open>p\<close> significand bits and exponents from
  \<open>emin\<close> to \<open>emax\<close>: an operation returns its exact result rounded to the nearest
  number of the format, ties to the even significand; below \<open>2^emin\<close> the spacing is
  that of the lowest binade (subnormal numbers); a rounded result beyond the largest
  finite number is an infinity.
\<close>

datatype fl = Num rat | PosInf | NegInf | NaN

text \<open>Round to the nearest integer, ties to even.\<close>

definition rne :: "rat \<Rightarrow> int" where
  "rne x = (let f = \<lfloor>x\<rfloor>; d = x - of_int f
            in if d < 1/2 then f else if d > 1/2 then f + 1 else if even f then f else f + 1)"

text \<open>The exponent \<open>e\<close> with \<open>2^e \<le> \<bar>x\<bar> < 2^(e+1)\<close>, for \<open>x \<noteq> 0\<close>.\<close>

definition ilog2 :: "rat \<Rightarrow> int" where
  "ilog2 x = (case quotient_of \<bar>x\<bar> of (a, b) \<Rightarrow>
                let d = bitlen a - bitlen b in if power_int 2 d \<le> \<bar>x\<bar> then d else d - 1)"

text \<open>
  The three storage dtypes: significand bits (hidden bit included), exponent of the
  smallest normal number, exponent of the largest binade.
\<close>

fun precision :: "dtype \<Rightarrow> nat" where
  "precision Float32 = 24"
| "precision Float16 = 11"
| "precision BFloat16 = 8"

fun emin :: "dtype \<Rightarrow> int" where
  "emin Float32 = - 126"
| "emin Float16 = - 14"
| "emin BFloat16 = - 126"

fun emax :: "dtype \<Rightarrow> int" where
  "emax Float32 = 127"
| "emax Float16 = 15"
| "emax BFloat16 = 127"

text \<open>
  The spacing of the numbers of the format around \<open>x\<close>, and the largest finite number
  (65504 for float16).
\<close>

definition quantum :: "dtype \<Rightarrow> rat \<Rightarrow> rat" where
  "quantum dt x = power_int 2 (max (ilog2 x) (emin dt) - (int (precision dt) - 1))"

definition max_finite :: "dtype \<Rightarrow> rat" where
  "max_finite dt = (2 ^ precision dt - 1) * power_int 2 (emax dt - (int (precision dt) - 1))"

definition round_to :: "dtype \<Rightarrow> rat \<Rightarrow> fl" where
  "round_to dt x =
     (if x = 0 then Num 0
      else let y = of_int (rne (x / quantum dt x)) * quantum dt x
           in if max_finite dt < \<bar>y\<bar> then (if 0 < x then PosInf else NegInf) else Num y)"

text \<open>Product and sum of two values, rounded to a format.\<close>

fun sign_of :: "fl \<Rightarrow> int" where
  "sign_of (Num a) = (if a = 0 then 0 else if 0 < a then 1 else - 1)"
| "sign_of PosInf = 1"
| "sign_of NegInf = - 1"
| "sign_of NaN = 0"

fun fmul :: "dtype \<Rightarrow> fl \<Rightarrow> fl \<Rightarrow> fl" where
  "fmul dt (Num a) (Num b) = round_to dt (a * b)"
| "fmul dt NaN y = NaN"
| "fmul dt x NaN = NaN"
| "fmul dt x y =
     (if sign_of x * sign_of y = 0 then NaN
      else if 0 < sign_of x * sign_of y then PosInf else NegInf)"

fun fadd :: "dtype \<Rightarrow> fl \<Rightarrow> fl \<Rightarrow> fl" where
  "fadd dt (Num a) (Num b) = round_to dt (a + b)"
| "fadd dt NaN y = NaN"
| "fadd dt x NaN = NaN"
| "fadd dt PosInf NegInf = NaN"
| "fadd dt NegInf PosInf = NaN"
| "fadd dt PosInf y = PosInf"
| "fadd dt x PosInf = PosInf"
| "fadd dt NegInf y = NegInf"
| "fadd dt x NegInf = NegInf"

type_synonym tensor5 = "rat list list list list list"

definition map5 :: "('a \<Rightarrow> 'b) \<Rightarrow> 'a list list list list list \<Rightarrow> 'b list list list list list" where
  "map5 f = map (map4 f)"

text \<open>
  Line 309, \<^verbatim>\<open>noise_pred_uncond + cfg * (noise_pred - noise_pred_uncond)\<close>, for one
  element. The two predictions have the dtype of the denoiser, so their difference is
  rounded to that dtype. The guidance scale is not a static argument of the mapped
  function and reaches it as a float32 array: the product with it and the sum are
  float32 operations, and the result is a float32 value. A number of a storage dtype is
  a float32 number, so the conversions of the operands are exact.
\<close>

definition guide :: "dtype \<Rightarrow> rat \<Rightarrow> rat \<Rightarrow> rat \<Rightarrow> fl" where
  "guide dt cfg_val cond uncond =
     fadd Float32 (Num uncond)
       (fmul Float32 (round_to Float32 cfg_val) (round_to dt (cond - uncond)))"

text \<open>The same on two tensors of one shape, element by element.\<close>

definition guidance ::
  "dtype \<Rightarrow> rat \<Rightarrow> tensor5 \<Rightarrow> tensor5 \<Rightarrow> fl list list list list list" where
  "guidance dt cfg_val noise_pred noise_pred_uncond =
     map2 (map2 (map2 (map2 (map2 (guide dt cfg_val))))) noise_pred noise_pred_uncond"

text \<open>
  A number of the format that is zero or in its normal range: the numbers on which
  every backend agrees (some flush subnormal numbers to zero).
\<close>

definition normal_or_zero :: "dtype \<Rightarrow> rat \<Rightarrow> bool" where
  "normal_or_zero dt x =
     (x = 0 \<or> power_int 2 (emin dt) \<le> \<bar>x\<bar> \<and> round_to dt x = Num x)"

text \<open>Position \<open>(i, j, k, l, m)\<close> exists in a tensor.\<close>

definition in_range5 :: "'a list list list list list \<Rightarrow> nat \<Rightarrow> nat \<Rightarrow> nat \<Rightarrow> nat \<Rightarrow> nat \<Rightarrow> bool" where
  "in_range5 t i j k l m =
     (i < length t \<and> j < length (t ! i) \<and> k < length (t ! i ! j) \<and>
      l < length (t ! i ! j ! k) \<and> m < length (t ! i ! j ! k ! l))"

text \<open>
  The exponent is the one of the binade of \<open>x\<close>; a finite rounded value is within half
  a spacing of \<open>x\<close>; a normal number of a storage dtype is a float32 number.
\<close>

lemma rne_of_int: "rne (of_int n) = n"
  by (simp add: rne_def)

lemma rne_error: "\<bar>of_int (rne x) - x\<bar> \<le> 1/2"
proof -
  have "of_int \<lfloor>x\<rfloor> \<le> x" "x < of_int \<lfloor>x\<rfloor> + 1" by linarith+
  then show ?thesis by (auto simp: rne_def Let_def)
qed

lemma ilog2_bounds:
  assumes "x \<noteq> 0"
  shows "power_int 2 (ilog2 x) \<le> \<bar>x\<bar> \<and> \<bar>x\<bar> < power_int 2 (ilog2 x + 1)"
proof -
  obtain a b where q: "quotient_of \<bar>x\<bar> = (a, b)" by (cases "quotient_of \<bar>x\<bar>")
  have b: "0 < b" using q by (rule quotient_of_denom_pos)
  have x: "\<bar>x\<bar> = of_int a / of_int b" using q by (rule quotient_of_div)
  have a: "0 < a"
  proof -
    have "0 < \<bar>x\<bar>" using assms by simp
    then have "0 < (of_int a :: rat) / of_int b" using x by simp
    then show ?thesis using b by (simp add: zero_less_divide_iff)
  qed
  let ?la = "bitlen a" and ?lb = "bitlen b"
  have la: "1 \<le> ?la" "1 \<le> ?lb" using a b by (simp_all add: bitlen_alt_def)
  have ba: "(2::rat) ^ nat (?la - 1) \<le> of_int a" "of_int a < (2::rat) ^ nat ?la"
    using bitlen_bounds [OF a]
    by (metis of_int_le_iff of_int_numeral of_int_power, metis of_int_less_iff of_int_numeral of_int_power)
  have bb: "(2::rat) ^ nat (?lb - 1) \<le> of_int b" "of_int b < (2::rat) ^ nat ?lb"
    using bitlen_bounds [OF b]
    by (metis of_int_le_iff of_int_numeral of_int_power, metis of_int_less_iff of_int_numeral of_int_power)
  have pa: "(2::rat) ^ nat (?la - 1) = power_int 2 (?la - 1)" "(2::rat) ^ nat ?la = power_int 2 ?la"
           "(2::rat) ^ nat (?lb - 1) = power_int 2 (?lb - 1)" "(2::rat) ^ nat ?lb = power_int 2 ?lb"
    using la by (simp_all add: power_int_def)
  have bpos: "(0::rat) < of_int b" using b by simp
  have up: "\<bar>x\<bar> < power_int 2 (?la - ?lb + 1)"
  proof -
    have "of_int a / of_int b < (2::rat) ^ nat ?la / of_int b"
      using ba(2) bpos by (simp add: divide_strict_right_mono)
    also have "\<dots> \<le> (2::rat) ^ nat ?la / 2 ^ nat (?lb - 1)"
      using bb(1) bpos by (intro divide_left_mono) simp_all
    also have "\<dots> = power_int 2 (?la - (?lb - 1))"
      unfolding pa by (simp add: power_int_diff)
    finally show ?thesis by (simp add: x algebra_simps)
  qed
  have lo: "power_int 2 (?la - ?lb - 1) \<le> \<bar>x\<bar>"
  proof -
    have "power_int (2::rat) (?la - 1 - ?lb) = (2::rat) ^ nat (?la - 1) / 2 ^ nat ?lb"
      unfolding pa by (simp add: power_int_diff)
    also have "\<dots> \<le> (2::rat) ^ nat (?la - 1) / of_int b"
      using bb(2) bpos by (intro divide_left_mono) simp_all
    also have "\<dots> \<le> of_int a / of_int b"
      using ba(1) bpos by (simp add: divide_right_mono)
    finally show ?thesis by (simp add: x algebra_simps)
  qed
  show ?thesis
    using up lo unfolding ilog2_def q by (auto simp: Let_def algebra_simps)
qed


lemma ilog2_ge:
  assumes "power_int 2 n \<le> \<bar>x\<bar>"
  shows "n \<le> ilog2 x"
proof (rule ccontr)
  assume "\<not> n \<le> ilog2 x"
  then have "ilog2 x + 1 \<le> n" by simp
  then have "power_int (2::rat) (ilog2 x + 1) \<le> power_int 2 n"
    by (intro power_int_increasing) simp_all
  moreover have "x \<noteq> 0"
  proof
    assume "x = 0"
    then have "power_int (2::rat) n \<le> 0" using assms by simp
    moreover have "0 < power_int (2::rat) n" by simp
    ultimately show False by linarith
  qed
  ultimately show False using ilog2_bounds [of x] assms by linarith
qed

lemma max_finite_le: "max_finite dt \<le> max_finite Float32"
proof -
  have "max_finite Float16 \<le> max_finite Float32" "max_finite BFloat16 \<le> max_finite Float32"
    by code_simp+
  then show ?thesis by (cases dt) simp_all
qed

lemma round_to_Num:
  assumes "round_to dt x = Num x" "x \<noteq> 0"
  shows "of_int (rne (x / quantum dt x)) * quantum dt x = x" "\<bar>x\<bar> \<le> max_finite dt"
  using assms by (auto simp: round_to_def Let_def split: if_splits)

lemma quantum_pos: "0 < quantum dt x"
  by (simp add: quantum_def)

lemma widen:
  assumes "normal_or_zero dt x"
  shows "round_to Float32 x = Num x"
proof (cases "x = 0")
  case True
  then show ?thesis by (simp add: round_to_def)
next
  case False
  then have n: "power_int 2 (emin dt) \<le> \<bar>x\<bar>" and r: "round_to dt x = Num x"
    using assms by (auto simp: normal_or_zero_def)
  define m where "m = rne (x / quantum dt x)"
  have xm: "of_int m * quantum dt x = x" and mx: "\<bar>x\<bar> \<le> max_finite dt"
    using round_to_Num [OF r False] by (simp_all add: m_def)
  have le: "emin dt \<le> ilog2 x" using n by (rule ilog2_ge)
  have "- 126 \<le> emin dt" by (cases dt) simp_all
  then have "max (ilog2 x) (emin Float32) = ilog2 x" using le by simp
  then have q32: "quantum Float32 x = power_int 2 (ilog2 x - 23)"
    unfolding quantum_def by simp
  have "max (ilog2 x) (emin dt) = ilog2 x" using le by simp
  then have qdt: "quantum dt x = power_int 2 (ilog2 x - (int (precision dt) - 1))"
    unfolding quantum_def by simp
  define k where "k = 24 - precision dt"
  have k: "int (precision dt) - 1 = 23 - int k"
    by (cases dt) (simp_all add: k_def)
  have "quantum dt x = power_int 2 (ilog2 x - 23 + int k)"
    unfolding qdt k by (simp add: algebra_simps)
  also have "\<dots> = quantum Float32 x * 2 ^ k"
    unfolding q32 by (simp add: power_int_add)
  finally have q: "quantum dt x = quantum Float32 x * 2 ^ k" .
  have "x / quantum Float32 x = of_int m * 2 ^ k"
    using xm quantum_pos [of Float32 x] unfolding q
    by (simp add: field_simps)
  also have "\<dots> = of_int (m * 2 ^ k)" by simp
  finally have "rne (x / quantum Float32 x) = m * 2 ^ k"
    by (simp only: rne_of_int)
  then have "of_int (rne (x / quantum Float32 x)) * quantum Float32 x
               = of_int m * (quantum Float32 x * 2 ^ k)"
    by (simp add: algebra_simps)
  then have y: "of_int (rne (x / quantum Float32 x)) * quantum Float32 x = x"
    using xm unfolding q by simp
  have "\<bar>x\<bar> \<le> max_finite Float32" using mx max_finite_le [of dt] by linarith
  then show ?thesis using False y by (simp add: round_to_def Let_def)
qed

lemma round_to_error:
  assumes "round_to dt x = Num y"
  shows "\<bar>y - x\<bar> \<le> quantum dt x / 2"
proof (cases "x = 0")
  case True
  then show ?thesis using assms quantum_pos [of dt x] by (simp add: round_to_def)
next
  case False
  let ?q = "quantum dt x"
  have pos: "0 < ?q" by (rule quantum_pos)
  have y: "y = of_int (rne (x / ?q)) * ?q"
    using assms False by (auto simp: round_to_def Let_def split: if_splits)
  have "(of_int (rne (x / ?q)) - x / ?q) * ?q = y - x"
    using pos by (simp add: y left_diff_distrib)
  then have "\<bar>y - x\<bar> = \<bar>of_int (rne (x / ?q)) - x / ?q\<bar> * \<bar>?q\<bar>"
    by (metis abs_mult)
  also have "\<dots> = \<bar>of_int (rne (x / ?q)) - x / ?q\<bar> * ?q"
    using pos by simp
  also have "\<dots> \<le> 1/2 * ?q"
    using rne_error pos by (intro mult_right_mono) simp_all
  finally show ?thesis by simp
qed


lemma round_to_one: "round_to Float32 1 = Num 1"
  by code_simp

lemma round_to_normal:
  assumes "normal_or_zero dt x"
  shows "round_to dt x = Num x"
proof (cases "x = 0")
  case True
  then show ?thesis by (simp add: round_to_def)
next
  case False
  then show ?thesis using assms by (simp add: normal_or_zero_def)
qed

lemma guide_exact:
  assumes "normal_or_zero dt cond" "normal_or_zero dt (cond - uncond)"
  shows "guide dt 1 cond uncond = Num cond"
proof -
  have "guide dt 1 cond uncond = fadd Float32 (Num uncond) (round_to Float32 (cond - uncond))"
    by (simp add: guide_def round_to_one round_to_normal [OF assms(2)])
  also have "\<dots> = round_to Float32 cond"
    by (simp add: widen [OF assms(2)])
  finally show ?thesis by (simp add: widen [OF assms(1)])
qed

lemma guidance_nth:
  assumes "in_range5 a i j k l m" "in_range5 b i j k l m"
  shows "guidance dt g a b ! i ! j ! k ! l ! m
         = guide dt g (a ! i ! j ! k ! l ! m) (b ! i ! j ! k ! l ! m)"
  using assms by (simp add: guidance_def in_range5_def)


text \<open>
  The model on two runs of line 309 with float16 predictions \<open>819/8192\<close> and \<open>3/2\<close>:
  with \<open>cfg = 12\<close> the float16 difference \<open>-717/512\<close> gives the float32 result
  \<open>-1959/128\<close>.
\<close>

lemma guide_scale_12: "guide Float16 12 (819/8192) (3/2) = Num (- (1959/128))"
  by code_simp


text \<open>
  Claim C5, as stated, fails: with \<open>cfg = 1.0\<close> the guided prediction is
  \<open>uncond + (cond - uncond)\<close> computed in floating point, and the subtraction rounds.
  In float16, \<open>cond = 819/8192\<close> (the float16 nearest to 0.1) and \<open>uncond = 1.5\<close> give
  \<open>51/512\<close>, not \<open>cond\<close>; in each of the three dtypes a small \<open>cond\<close> next to
  \<open>uncond = 1\<close> gives 0; and the float16 numbers \<open>cond = 65504\<close> and
  \<open>uncond = -65504\<close> give an infinity, their difference being beyond the largest
  float16 number.
\<close>

theorem guidance_cfg_one_counterexample:
  "round_to Float16 (819/8192) = Num (819/8192) \<and>
   round_to Float16 (3/2) = Num (3/2) \<and>
   guidance Float16 1 [[[[[819/8192]]]]] [[[[[3/2]]]]] = [[[[[Num (51/512)]]]]] \<and>
   guidance Float16 1 [[[[[819/8192]]]]] [[[[[3/2]]]]] \<noteq> [[[[[Num (819/8192)]]]]] \<and>
   guidance Float16 1 [[[[[1/8192]]]]] [[[[[1]]]]] \<noteq> [[[[[Num (1/8192)]]]]] \<and>
   guidance BFloat16 1 [[[[[1/1024]]]]] [[[[[1]]]]] \<noteq> [[[[[Num (1/1024)]]]]] \<and>
   guidance Float32 1 [[[[[1/2^26]]]]] [[[[[1]]]]] \<noteq> [[[[[Num (1/2^26)]]]]] \<and>
   round_to Float16 65504 = Num 65504 \<and>
   guidance Float16 1 [[[[[65504]]]]] [[[[[- 65504]]]]] = [[[[[PosInf]]]]]"
  unfolding guidance_def by (simp, code_simp)

text \<open>
  Claim C5, amended. With \<open>cfg = 1.0\<close>, in each of the three dtypes, the guided
  prediction equals the conditioned prediction at every element where \<open>cond\<close>,
  \<open>uncond\<close> and the exact difference \<open>cond - uncond\<close> are numbers of the dtype that are
  zero or in its normal range, that is, where the subtraction is computed without
  rounding error, overflow or underflow. Nothing is said of the other elements.
\<close>

theorem guidance_cfg_one:
  assumes "in_range5 noise_pred i j k l m" "in_range5 noise_pred_uncond i j k l m"
      and "normal_or_zero dt (noise_pred ! i ! j ! k ! l ! m)"
      and "normal_or_zero dt (noise_pred_uncond ! i ! j ! k ! l ! m)"
      and "normal_or_zero dt
             (noise_pred ! i ! j ! k ! l ! m - noise_pred_uncond ! i ! j ! k ! l ! m)"
  shows "guidance dt 1 noise_pred noise_pred_uncond ! i ! j ! k ! l ! m
         = Num (noise_pred ! i ! j ! k ! l ! m)"
  using assms by (simp add: guidance_nth guide_exact)

theorem guidance_cfg_one_witness:
  "guidance Float16 1 [[[[[819/8192, 3/4]]]]] [[[[[3/2, 1]]]]] ! 0 ! 0 ! 0 ! 0 ! 1 = Num (3/4)"
proof -
  have n: "normal_or_zero Float16 (3/4) \<and> normal_or_zero Float16 1 \<and>
           normal_or_zero Float16 (3/4 - 1)"
    unfolding normal_or_zero_def by (simp, code_simp)
  have "guidance Float16 1 [[[[[819/8192, 3/4]]]]] [[[[[3/2, 1]]]]] ! 0 ! 0 ! 0 ! 0 ! 1
          = Num ([[[[[819/8192, 3/4 :: rat]]]]] ! 0 ! 0 ! 0 ! 0 ! 1)"
    by (rule guidance_cfg_one) (use n in \<open>simp_all add: in_range5_def\<close>)
  then show ?thesis by simp
qed

section \<open>The per-device generation\<close>

text \<open>
  The networks and the scheduler are external collaborators, pure functions of their
  parameters and inputs. \<open>networks\<close> holds what the text encoder, the VAE, the denoiser
  and the \<^verbatim>\<open>jax\<close> primitives compute; \<open>sched_ops\<close> holds the operations of the
  scheduler classes, which take the scheduler object of the inference object first. A
  parameter tree is handed over as the dictionary lookup \<^verbatim>\<open>params['...']\<close> finds it.
  A text embedding is a tensor of rank 3, a random key is given by its seed.
\<close>

record ('w, 'st) networks =
  text_encoder_apply :: "('w, 'st) entry option \<Rightarrow> int list list \<Rightarrow> rat list list list"
  vae_encode :: "('w, 'st) entry option \<Rightarrow> tensor4 \<Rightarrow> tensor4"
  vae_decode :: "('w, 'st) entry option \<Rightarrow> tensor4 \<Rightarrow> tensor4"
  unet_apply ::
    "('w, 'st) entry option \<Rightarrow> tensor5 \<Rightarrow> int list \<Rightarrow> rat list list list \<Rightarrow> tensor5"
  latent_channels :: nat
  out_channels :: nat
  scaling_factor :: rat
  random_normal :: "int \<Rightarrow> nat list \<Rightarrow> tensor5"
  image_resize_nearest :: "tensor4 \<Rightarrow> nat list \<Rightarrow> tensor4"

record ('sch, 'w, 'st) sched_ops =
  init_noise_sigma :: "('w, 'st) entry option \<Rightarrow> rat"
  set_timesteps :: "'sch \<Rightarrow> ('w, 'st) entry option \<Rightarrow> int \<Rightarrow> nat list \<Rightarrow> 'st"
  timestep_at :: "'st \<Rightarrow> nat \<Rightarrow> int"
  scale_model_input :: "'sch \<Rightarrow> 'st \<Rightarrow> tensor5 \<Rightarrow> int list \<Rightarrow> tensor5"
  scheduler_step ::
    "'sch \<Rightarrow> 'st \<Rightarrow> fl list list list list list \<Rightarrow> int list \<Rightarrow> tensor5 \<Rightarrow> tensor5 \<times> 'st"

text \<open>
  \<^verbatim>\<open>x.shape\<close> of a nested list: the lengths along the first elements. (A nested
  list cannot hold the inner dimensions of an array with an empty outer axis.)
\<close>

definition first :: "'a list list \<Rightarrow> 'a list" where
  "first xs = (case xs of [] \<Rightarrow> [] | x # _ \<Rightarrow> x)"

definition shape4 :: "'a list list list list \<Rightarrow> nat list" where
  "shape4 t = [length t, length (first t), length (first (first t)),
               length (first (first (first t)))]"

definition shape5 :: "'a list list list list list \<Rightarrow> nat list" where
  "shape5 t = length t # shape4 (first t)"

text \<open>\<^verbatim>\<open>jax.lax.fori_loop(lower, upper, body, init)\<close>\<close>

definition fori_loop :: "nat \<Rightarrow> nat \<Rightarrow> (nat \<Rightarrow> 'a \<Rightarrow> 'a) \<Rightarrow> 'a \<Rightarrow> 'a" where
  "fori_loop lower upper body init = fold body [lower..<upper] init"

text \<open>\<^verbatim>\<open>jnp.expand_dims(x, axis = 2).repeat(num_frames, axis = 2)\<close>\<close>

definition repeat_frames :: "nat \<Rightarrow> tensor4 \<Rightarrow> tensor5" where
  "repeat_frames f t = map (map (\<lambda>plane. replicate f plane)) t"

text \<open>\<^verbatim>\<open>jnp.concatenate([a, b, c], axis = 1)\<close> of tensors that agree on the other axes.\<close>

definition concat_axis1 :: "tensor5 \<Rightarrow> tensor5 \<Rightarrow> tensor5 \<Rightarrow> tensor5" where
  "concat_axis1 a b c = map2 (@) (map2 (@) a b) c"

text \<open>
  The body of the denoising loop. The denoiser is built with the storage dtype, so its
  two predictions have that dtype; the guided prediction of line 309 is a float32
  tensor, on which \<^verbatim>\<open>astype(jnp.float32)\<close> changes nothing, and it may hold
  infinities or NaN.
\<close>

definition sample_loop ::
  "('w, 'st) networks \<Rightarrow> ('sch, 'w, 'st) sched_ops \<Rightarrow> ('net, 'tok, 'sch, 'w, 'st) inference
     \<Rightarrow> (string \<rightharpoonup> ('w, 'st) entry) \<Rightarrow> rat \<Rightarrow> rat list list list \<Rightarrow> rat list list list
     \<Rightarrow> tensor5 \<Rightarrow> tensor5 \<Rightarrow> nat \<Rightarrow> tensor5 \<times> 'st \<Rightarrow> tensor5 \<times> 'st" where
  "sample_loop nets sch self prms cfg_val encoded_prompt encoded_neg_prompt msk hint step args =
     (case args of (latents, scheduler_state) \<Rightarrow>
        let t = replicate (length latents) (timestep_at sch scheduler_state step);
            latents_scaled = scale_model_input sch (scheduler self) scheduler_state latents t;
            latents_input = concat_axis1 latents_scaled msk hint;
            noise_pred = unet_apply nets (prms ''unet'') latents_input t encoded_prompt;
            noise_pred_uncond = unet_apply nets (prms ''unet'') latents_input t encoded_neg_prompt;
            noise_guided = guidance (dtype self) cfg_val noise_pred noise_pred_uncond
        in scheduler_step sch (scheduler self) scheduler_state noise_guided t latents)"

text \<open>
  Lines 262 to 319: the latents after the last denoising step, rescaled. A division by
  zero raises.
\<close>

definition denoise ::
  "('w, 'st) networks \<Rightarrow> ('sch, 'w, 'st) sched_ops \<Rightarrow> ('net, 'tok, 'sch, 'w, 'st) inference
     \<Rightarrow> int list list \<Rightarrow> int list list \<Rightarrow> tensor4 \<Rightarrow> tensor4 \<Rightarrow> int \<Rightarrow> int \<Rightarrow> int \<Rightarrow> int \<Rightarrow> rat
     \<Rightarrow> int \<Rightarrow> (string \<rightharpoonup> ('w, 'st) entry) \<Rightarrow> error + tensor5" where
  "denoise nets sch self tokens neg_tokens hint msk steps frames h w cfg_val rng prms =
     (if vae_scale_factor self = 0 then Inl ZeroDivisionError
      else
        let batch_size = length tokens;
            latent_h = h div vae_scale_factor self;
            latent_w = w div vae_scale_factor self;
            latent_shape = [batch_size, latent_channels nets, nat frames, nat latent_h, nat latent_w];
            encoded_prompt = text_encoder_apply nets (prms ''text_encoder'') tokens;
            encoded_neg_prompt = text_encoder_apply nets (prms ''text_encoder'') neg_tokens;
            hint_latent = map4 (\<lambda>x. x * scaling_factor nets) (vae_encode nets (prms ''vae'') hint);
            hint_frames = repeat_frames (nat frames) (to_channel_first hint_latent);
            mask_small = image_resize_nearest nets msk (take 2 (shape4 msk) @ drop 3 (shape5 hint_frames));
            mask_frames = repeat_frames (nat frames) mask_small;
            latents = map5 (\<lambda>x. x * init_noise_sigma sch (prms ''scheduler''))
                        (random_normal nets rng latent_shape);
            scheduler_state = set_timesteps sch (scheduler self) (prms ''scheduler'') steps (shape5 latents);
            final = fori_loop 0 (nat steps)
                      (sample_loop nets sch self prms cfg_val encoded_prompt encoded_neg_prompt
                         mask_frames hint_frames)
                      (latents, scheduler_state)
        in if scaling_factor nets = 0 then Inl ZeroDivisionError
           else Inr (map5 (\<lambda>x. 1 / scaling_factor nets * x) (fst final)))"

subsection \<open>Decoding\<close>

text \<open>\<^verbatim>\<open>einops.rearrange(latents, 'b c f h w -> (b f) c h w')\<close>\<close>

definition rearrange_bcfhw :: "'a list list list list \<Rightarrow> 'a list list list" where
  "rearrange_bcfhw latents = concat (map transpose latents)"

text \<open>
  Broadcasting of an array to a given shape, axis by axis: an axis of the right length is
  kept, an axis of length 1 is repeated, anything else is refused.
\<close>

definition bcast :: "nat \<Rightarrow> 'a list \<Rightarrow> 'a list option" where
  "bcast n xs = (if length xs = n then Some xs
                 else if length xs = 1 then Some (replicate n (hd xs)) else None)"

definition bcast2 :: "nat \<Rightarrow> nat \<Rightarrow> 'a list list \<Rightarrow> 'a list list option" where
  "bcast2 h w x = Option.bind (those (map (bcast w) x)) (bcast h)"

definition bcast3 :: "nat \<Rightarrow> nat \<Rightarrow> nat \<Rightarrow> 'a list list list \<Rightarrow> 'a list list list option" where
  "bcast3 c h w x = Option.bind (those (map (bcast2 h w) x)) (bcast c)"

text \<open>
  \<^verbatim>\<open>images_out.at[step].set(im[0])\<close> on a buffer whose slots have shape
  \<open>(c, h, w)\<close>; the value is broadcast to the slot or the update raises.
\<close>

definition at_set ::
  "nat \<Rightarrow> nat \<Rightarrow> nat \<Rightarrow> tensor4 \<Rightarrow> nat \<Rightarrow> rat list list list \<Rightarrow> error + tensor4" where
  "at_set c h w images_out step v =
     (case bcast3 c h w v of None \<Rightarrow> Inl ValueError | Some v' \<Rightarrow> Inr (images_out[step := v']))"

text \<open>The body of the decoding loop; \<^verbatim>\<open>im[0]\<close> raises on an empty result.\<close>

definition decode_loop ::
  "('w, 'st) networks \<Rightarrow> (string \<rightharpoonup> ('w, 'st) entry) \<Rightarrow> nat \<Rightarrow> nat \<Rightarrow> nat \<Rightarrow> tensor4
     \<Rightarrow> nat \<Rightarrow> error + tensor4 \<Rightarrow> error + tensor4" where
  "decode_loop nets prms c h w latents step acc =
     (case acc of
        Inl e \<Rightarrow> Inl e
      | Inr images_out \<Rightarrow>
          (case vae_decode nets (prms ''vae'') [latents ! step] of
             [] \<Rightarrow> Inl IndexError
           | im0 # _ \<Rightarrow> at_set c h w images_out step im0))"

definition zeros4 :: "nat \<Rightarrow> nat \<Rightarrow> nat \<Rightarrow> nat \<Rightarrow> tensor4" where
  "zeros4 n c h w = replicate n (replicate c (replicate h (replicate w 0)))"

text \<open>
  Lines 321 to 347: the decoded images of the flattened latents, frame by frame into a
  preallocated buffer when \<^verbatim>\<open>low_vram\<close> is set, in one call otherwise.
\<close>

definition decode_latents ::
  "('w, 'st) networks \<Rightarrow> bool \<Rightarrow> (string \<rightharpoonup> ('w, 'st) entry) \<Rightarrow> tensor4 \<Rightarrow> int \<Rightarrow> int
     \<Rightarrow> error + tensor4" where
  "decode_latents nets low prms latents h w =
     (let num_images = length latents in
      if low
      then fori_loop 0 num_images
             (decode_loop nets prms (out_channels nets) (nat h) (nat w) latents)
             (Inr (zeros4 num_images (out_channels nets) (nat h) (nat w)))
      else Inr (vae_decode nets (prms ''vae'') latents))"

text \<open>
  Line 348,
  \<^verbatim>\<open>((x / 2 + 0.5).clip(0, 1) * 255).round().clip(0, 255).astype(jnp.uint8)\<close>,
  for one element; \<^verbatim>\<open>round\<close> rounds halves to the even integer.
\<close>

definition clip :: "'a::linorder \<Rightarrow> 'a \<Rightarrow> 'a \<Rightarrow> 'a" where
  "clip lo hi x = min hi (max lo x)"

definition to_uint8 :: "rat \<Rightarrow> 8 word" where
  "to_uint8 x = word_of_int (clip 0 255 (rne (clip 0 1 (x / 2 + 1/2) * 255)))"

text \<open>\<^verbatim>\<open>_generate\<close>: denoise, flatten batch and frames, decode, convert to bytes.\<close>

definition generate_on_device ::
  "('w, 'st) networks \<Rightarrow> ('sch, 'w, 'st) sched_ops \<Rightarrow> ('net, 'tok, 'sch, 'w, 'st) inference
     \<Rightarrow> int list list \<Rightarrow> int list list \<Rightarrow> tensor4 \<Rightarrow> tensor4 \<Rightarrow> int \<Rightarrow> int \<Rightarrow> int \<Rightarrow> int \<Rightarrow> rat
     \<Rightarrow> int \<Rightarrow> (string \<rightharpoonup> ('w, 'st) entry) \<Rightarrow> error + 8 word list list list list" where
  "generate_on_device nets sch self tokens neg_tokens hint msk steps frames h w cfg_val rng prms =
     (case denoise nets sch self tokens neg_tokens hint msk steps frames h w cfg_val rng prms of
        Inl e \<Rightarrow> Inl e
      | Inr latents \<Rightarrow>
          (case decode_latents nets (low_vram self) prms (rearrange_bcfhw latents) h w of
             Inl e \<Rightarrow> Inl e
           | Inr images_out \<Rightarrow> Inr (map4 to_uint8 images_out)))"

section \<open>Dispatch to the devices and the whole of \<^verbatim>\<open>generate\<close>\<close>

text \<open>
  \<^verbatim>\<open>shard(x)\<close> reshapes the batch axis of length \<open>b\<close> into \<open>(d, b / d)\<close>: \<open>d\<close>
  consecutive chunks (the device count divides \<open>b\<close> when it is called).
\<close>

definition shard :: "nat \<Rightarrow> 'a list \<Rightarrow> 'a list list" where
  "shard d xs = (let k = length xs div d in map (\<lambda>i. take k (drop (i * k) xs)) [0..<d])"

text \<open>The results of the devices, or the first error.\<close>

fun collect :: "(error + 'a) list \<Rightarrow> error + 'a list" where
  "collect [] = Inr []"
| "collect (Inl e # rs) = Inl e"
| "collect (Inr x # rs) = (case collect rs of Inl e \<Rightarrow> Inl e | Inr xs \<Rightarrow> Inr (x # xs))"

text \<open>
  \<^verbatim>\<open>_p_generate\<close>: \<^verbatim>\<open>jax.pmap\<close> of \<^verbatim>\<open>_generate\<close>. The token, hint and mask
  tensors and the keys are mapped over their first axis, one slice per device; steps,
  frames, height, width and guidance scale are broadcast; the replicated parameters are
  the same on every device.
\<close>

definition p_generate ::
  "('w, 'st) networks \<Rightarrow> ('sch, 'w, 'st) sched_ops \<Rightarrow> ('net, 'tok, 'sch, 'w, 'st) inference
     \<Rightarrow> int list list list \<Rightarrow> int list list list \<Rightarrow> tensor5 \<Rightarrow> tensor5 \<Rightarrow> int \<Rightarrow> int \<Rightarrow> int \<Rightarrow> int
     \<Rightarrow> rat \<Rightarrow> int list \<Rightarrow> (string \<rightharpoonup> ('w, 'st) entry)
     \<Rightarrow> error + 8 word list list list list list" where
  "p_generate nets sch self tokens neg_tokens hint msk steps frames h w cfg_val rngs prms =
     collect (map (\<lambda>i. generate_on_device nets sch self (tokens ! i) (neg_tokens ! i)
                          (hint ! i) (msk ! i) steps frames h w cfg_val (rngs ! i) prms)
                [0..<length rngs])"

text \<open>An image made by \<^verbatim>\<open>Image.fromarray\<close> is given by its size and its array.\<close>

record out_image =
  oi_size :: "int \<times> int"
  oi_array :: "8 word list list list"

text \<open>\<^verbatim>\<open>Image.fromarray(x)\<close> of an array of shape (height, width, channels).\<close>

definition image_fromarray :: "8 word list list list \<Rightarrow> out_image" where
  "image_fromarray x = \<lparr>oi_size = (int (length (first x)), int (length x)), oi_array = x\<rparr>"

text \<open>The per-image part of \<^verbatim>\<open>'d f c h w -> (d f) h w c'\<close>: \<open>c,h,w\<close> to \<open>h,w,c\<close>.\<close>

definition to_channel_last :: "'a list list list \<Rightarrow> 'a list list list" where
  "to_channel_last img = map transpose (transpose img)"

text \<open>
  \<^verbatim>\<open>generate\<close>. The result of \<^verbatim>\<open>_p_generate\<close> always has five axes, so the
  first branch of the test on \<^verbatim>\<open>images.ndim\<close> is the one taken. The externals of the
  host side are the tokenizer \<open>tok\<close> and PIL's \<open>resize\<close>.
\<close>

definition generate ::
  "tokenizer_fn \<Rightarrow> resizer \<Rightarrow> ('w, 'st) networks \<Rightarrow> ('sch, 'w, 'st) sched_ops
     \<Rightarrow> ('net, 'tok, 'sch, 'w, 'st) inference \<Rightarrow> request \<Rightarrow> gstate
     \<Rightarrow> (error + out_image list) \<times> gstate" where
  "generate tok resize nets sch self r s =
     (case validate (device_count self) (heap s) r of
        Inl e \<Rightarrow> (Inl e, s)
      | Inr v \<Rightarrow>
          (case prepare_inputs tok resize (v_prompt v) (v_neg_prompt v) (v_hint v) (v_mask v)
                  (width r) (height r) s of
             (Inl e, s1) \<Rightarrow> (Inl e, s1)
           | (Inr (tokens, neg_tokens, hint, msk), s1) \<Rightarrow>
               let d = device_count self;
                   rngs = map (\<lambda>i. seed r + int i) [0..<d];
                   s2 = s1\<lparr>trace := trace s1 @ [Dispatch]\<rparr>
               in (case p_generate nets sch self (shard d tokens) (shard d neg_tokens)
                         (shard d hint) (shard d msk) (inference_steps r) (num_frames r)
                         (height r) (width r) (cfg r) rngs (params self) of
                     Inl e \<Rightarrow> (Inl e, s2)
                   | Inr images \<Rightarrow>
                       (Inr (map image_fromarray (map to_channel_last (concat images))), s2))))"

section \<open>A concrete configuration\<close>

text \<open>
  A small instance of every external collaborator, used to run the definitions: a
  tokenizer with one row of 77 zeros per prompt, a resize that returns a black image of
  the requested size, networks that return zeros of the right shapes (the decoder
  enlarges each latent plane eightfold), and a scheduler whose step keeps the latents.
\<close>

definition demo_tok :: tokenizer_fn where
  "demo_tok ps = Inr (map (\<lambda>p. replicate 77 0) ps)"

definition demo_resize :: resizer where
  "demo_resize im wh = Inr (image_new_L wh)"

definition demo_nets :: "(nat, nat) networks" where
  "demo_nets =
     \<lparr>text_encoder_apply = (\<lambda>p toks. map (\<lambda>row. map (\<lambda>tk. [0]) row) toks),
      vae_encode = (\<lambda>p x. map (\<lambda>img. replicate (length (first img) div 8)
                                  (replicate (length (first (first img)) div 8) (replicate 4 0))) x),
      vae_decode = (\<lambda>p x. map (\<lambda>fr. replicate 3 (replicate (8 * length (first fr))
                                  (replicate (8 * length (first (first fr))) 0))) x),
      unet_apply = (\<lambda>p x t e. map (take 4) x),
      latent_channels = 4,
      out_channels = 3,
      scaling_factor = 3643 / 20000,
      random_normal = (\<lambda>key shp. replicate (shp ! 0) (replicate (shp ! 1) (replicate (shp ! 2)
                                  (replicate (shp ! 3) (replicate (shp ! 4) 0))))),
      image_resize_nearest = (\<lambda>x shp. replicate (shp ! 0) (replicate (shp ! 1)
                                  (replicate (shp ! 2) (replicate (shp ! 3) 0))))\<rparr>"

definition demo_sched :: "(scheduler_cls, nat, nat) sched_ops" where
  "demo_sched =
     \<lparr>init_noise_sigma = (\<lambda>p. 1),
      set_timesteps = (\<lambda>sc p n shp. 0),
      timestep_at = (\<lambda>st i. 1000 - int i),
      scale_model_input = (\<lambda>sc st lat t. lat),
      scheduler_step = (\<lambda>sc st noise t lat. (lat, Suc st))\<rparr>"

definition demo_self :: "(unit, unit, scheduler_cls, nat, nat) inference" where
  "demo_self =
     \<lparr>low_vram = True, dtype = Float16, model_path = ''./model/ep38'',
      params = [''unet'' \<mapsto> Weights 1, ''vae'' \<mapsto> Weights 2,
                ''text_encoder'' \<mapsto> Weights 3, ''scheduler'' \<mapsto> SchedulerState 0],
      unet = (), vae = (), text_encoder = (), tokenizer = (),
      scheduler = FlaxDDIMScheduler, vae_scale_factor = 8, device_count = 1\<rparr>"

definition demo_image :: image where
  "demo_image = \<lparr>im_size = (2, 1), im_rgb = [[[10, 20, 30], [200, 210, 220]]],
                  im_gray = [[18, 207]]\<rparr>"

definition demo_state :: gstate where
  "demo_state = \<lparr>heap = (\<lambda>a. if a = 0 then [demo_image] else []), trace = []\<rparr>"

definition demo_request :: request where
  "demo_request =
     \<lparr>prompt = StrList [''Dancing man''], hint_image = ImgList 0, inference_steps = 2,
      mask_image = None, neg_prompt = Str [], cfg = 12, num_frames = 1,
      width = 32, height = 32, seed = 1\<rparr>"

section \<open>Rejection of invalid requests\<close>

text \<open>The batch size: one for a single prompt, the length of a prompt list.\<close>

definition batch_size_of :: "request \<Rightarrow> nat" where
  "batch_size_of r = (case prompt r of Str p \<Rightarrow> 1 | StrList ps \<Rightarrow> length ps)"

text \<open>
  The invalid requests: a step count or frame count that is not positive, a width or
  height that 32 does not divide, a batch size that is no multiple of the device count,
  or a hint, mask or negative-prompt argument given as a list whose length is not the
  batch size.
\<close>

definition invalid_request :: "nat \<Rightarrow> heap \<Rightarrow> request \<Rightarrow> bool" where
  "invalid_request dev_count h r =
     (inference_steps r \<le> 0 \<or> num_frames r \<le> 0 \<or>
      width r mod 32 \<noteq> 0 \<or> height r mod 32 \<noteq> 0 \<or>
      batch_size_of r mod dev_count \<noteq> 0 \<or>
      (case hint_image r of ImgList a \<Rightarrow> length (h a) \<noteq> batch_size_of r | Img im \<Rightarrow> False) \<or>
      (case mask_image r of Some (ImgList a) \<Rightarrow> length (h a) \<noteq> batch_size_of r | _ \<Rightarrow> False) \<or>
      (case neg_prompt r of StrList ns \<Rightarrow> length ns \<noteq> batch_size_of r | Str n \<Rightarrow> False))"

lemma validate_Inr:
  assumes "validate dev_count h r = Inr v"
  shows "\<not> invalid_request dev_count h r"
  using assms
  unfolding validate_def invalid_request_def batch_size_of_def Let_def
  by (auto split: if_splits str_arg.splits img_arg.splits option.splits sum.splits list.splits)

lemma validate_Inl:
  assumes "validate dev_count h r = Inl e"
  shows "e = AssertionError \<or> e = IndexError \<or> e = ZeroDivisionError"
  using assms unfolding validate_def Let_def
  by (auto split: if_splits option.splits sum.splits list.splits)

text \<open>
  Claim C2. On every invalid request \<^verbatim>\<open>generate\<close> raises (an assertion error, or the
  index or division error that precedes the failing assertion) and leaves the state as
  it was: the caller's heap is untouched, \<^verbatim>\<open>prepare_inputs\<close> has not been entered
  and nothing has been dispatched to the devices.
\<close>

theorem generate_rejects_invalid:
  "invalid_request (device_count self) (heap s) r \<Longrightarrow>
   \<exists>e. generate tok resize nets sch self r s = (Inl e, s) \<and>
       (e = AssertionError \<or> e = IndexError \<or> e = ZeroDivisionError)"
proof -
  assume inv: "invalid_request (device_count self) (heap s) r"
  obtain e where e: "validate (device_count self) (heap s) r = Inl e"
    using validate_Inr [of "device_count self" "heap s" r] inv
    by (cases "validate (device_count self) (heap s) r") auto
  then have "generate tok resize nets sch self r s = (Inl e, s)"
    by (simp add: generate_def)
  then show ?thesis using validate_Inl [OF e] by blast
qed

theorem generate_rejects_invalid_witness:
  "invalid_request (device_count demo_self) (heap demo_state) (demo_request\<lparr>width := 33\<rparr>) \<and>
   fst (generate demo_tok demo_resize demo_nets demo_sched demo_self
          (demo_request\<lparr>width := 33\<rparr>) demo_state) = Inl AssertionError \<and>
   snd (generate demo_tok demo_resize demo_nets demo_sched demo_self
          (demo_request\<lparr>width := 33\<rparr>) demo_state) = demo_state"
proof -
  have inv: "invalid_request (device_count demo_self) (heap demo_state) (demo_request\<lparr>width := 33\<rparr>)"
    by (simp add: invalid_request_def demo_request_def)
  have v: "validate (device_count demo_self) (heap demo_state) (demo_request\<lparr>width := 33\<rparr>)
             = Inl AssertionError"
    by (simp add: validate_def demo_request_def)
  from generate_rejects_invalid [OF inv, of demo_tok demo_resize demo_nets demo_sched]
  obtain e where "generate demo_tok demo_resize demo_nets demo_sched demo_self
                    (demo_request\<lparr>width := 33\<rparr>) demo_state = (Inl e, demo_state)"
    by blast
  moreover from this have "e = AssertionError"
    by (simp add: generate_def v)
  ultimately show ?thesis using inv by simp
qed

section \<open>The effect of \<^verbatim>\<open>generate\<close> on the caller's lists\<close>

lemma validate_lists:
  assumes "validate dev_count h r = Inr v"
  shows "(case hint_image r of ImgList a \<Rightarrow> v_hint v = Caller a
          | Img im \<Rightarrow> \<exists>xs. v_hint v = Local xs) \<and>
         (case mask_image r of Some (ImgList b) \<Rightarrow> v_mask v = Caller b
          | _ \<Rightarrow> \<exists>xs. v_mask v = Local xs)"
  using assms unfolding validate_def Let_def
  by (auto split: if_splits img_arg.splits option.splits sum.splits list.splits)

lemma resize_arg_ok:
  assumes "\<forall>im. \<not> isl (resize im wh)"
  shows "resize_arg resize wh l h =
          (None,
           (case l of Local xs \<Rightarrow> Local (map (resized resize wh) xs) | Caller a \<Rightarrow> Caller a),
           (case l of Local xs \<Rightarrow> h | Caller a \<Rightarrow> h(a := map (resized resize wh) (h a))))"
proof -
  have "resize_list resize wh xs = (None, map (resized resize wh) xs)" for xs
    using assms by (intro resize_list_map) (simp add: resize_ok_def)
  then show ?thesis by (simp add: resize_arg_def split: img_list.splits)
qed

lemma prepare_inputs_heap:
  assumes tok: "\<not> isl (tok ps)" "\<not> isl (tok ns)"
      and rs: "\<forall>im. \<not> isl (resize im (w, h))"
  shows "heap (snd (prepare_inputs tok resize ps ns hint msk w h s)) =
          (let R = map (resized resize (w, h));
               h1 = (case hint of Caller a \<Rightarrow> (heap s)(a := R (heap s a)) | Local xs \<Rightarrow> heap s)
           in case msk of Caller b \<Rightarrow> h1(b := R (h1 b)) | Local xs \<Rightarrow> h1)"
proof -
  obtain t1 t2 where t: "tok ps = Inr t1" "tok ns = Inr t2"
    using tok by (cases "tok ps"; cases "tok ns") auto
  show ?thesis
    unfolding prepare_inputs_def t Let_def
    by (simp add: resize_arg_ok [where resize = resize and wh = "(w, h)", OF rs]
             split: img_list.splits)
qed

lemma generate_heap:
  assumes "validate (device_count self) (heap s) r = Inr v"
  shows "heap (snd (generate tok resize nets sch self r s)) =
         heap (snd (prepare_inputs tok resize (v_prompt v) (v_neg_prompt v) (v_hint v) (v_mask v)
                      (width r) (height r) s))"
  unfolding generate_def assms Let_def
  by (auto split: prod.splits sum.splits)

text \<open>
  Claim C10. When a request passes validation and the tokenizer and the resizes do not
  raise, a hint list of the caller's is changed in place: after the call every entry
  whose size differed from (width, height) is its resized copy (\<open>resized\<close>), the other
  entries are as before; then the same happens to a mask list of the caller's. A single
  image passed instead of a list changes nothing of the caller's.
\<close>

theorem generate_resizes_in_place:
  assumes v: "validate (device_count self) (heap s) r = Inr v"
      and tok: "\<not> isl (tok (v_prompt v))" "\<not> isl (tok (v_neg_prompt v))"
      and rs: "\<forall>im. \<not> isl (resize im (width r, height r))"
  shows "heap (snd (generate tok resize nets sch self r s)) =
          (let R = map (resized resize (width r, height r));
               h1 = (case hint_image r of
                       ImgList a \<Rightarrow> (heap s)(a := R (heap s a)) | Img im \<Rightarrow> heap s)
           in case mask_image r of Some (ImgList b) \<Rightarrow> h1(b := R (h1 b)) | _ \<Rightarrow> h1)"
proof -
  note l = validate_lists [OF v]
  show ?thesis
    unfolding generate_heap [OF v]
      prepare_inputs_heap [where resize = resize and w = "width r" and h = "height r", OF tok rs]
    using l by (auto simp: Let_def split: img_arg.splits option.splits)
qed

theorem generate_resizes_in_place_witness:
  "heap demo_state 0 = [demo_image] \<and>
   heap (snd (generate demo_tok demo_resize demo_nets demo_sched demo_self demo_request demo_state)) 0
     = [image_new_L (32, 32)] \<and>
   image_new_L (32, 32) \<noteq> demo_image"
proof -
  have v: "validate (device_count demo_self) (heap demo_state) demo_request =
             Inr \<lparr>v_prompt = [''Dancing man''], v_neg_prompt = [[]], v_hint = Caller 0,
                  v_mask = Local [image_new_L (2, 1)], v_batch_size = 1\<rparr>"
    by (simp add: validate_def demo_request_def demo_self_def demo_state_def demo_image_def)
  have "heap (snd (generate demo_tok demo_resize demo_nets demo_sched demo_self demo_request
                     demo_state)) 0 = [image_new_L (32, 32)]"
    by (subst generate_resizes_in_place [OF v])
       (simp_all add: demo_tok_def demo_resize_def demo_request_def demo_state_def
          demo_image_def resized_def)
  moreover have "image_new_L (32, 32) \<noteq> demo_image"
    by (simp add: image_new_L_def demo_image_def)
  ultimately show ?thesis by (simp add: demo_state_def)
qed

section \<open>The two decode modes\<close>

text \<open>A nested list that is an array of the given shape.\<close>

definition is2 :: "nat \<Rightarrow> nat \<Rightarrow> 'a list list \<Rightarrow> bool" where
  "is2 h w x = (length x = h \<and> list_all (\<lambda>row. length row = w) x)"

definition is3 :: "nat \<Rightarrow> nat \<Rightarrow> nat \<Rightarrow> 'a list list list \<Rightarrow> bool" where
  "is3 c h w x = (length x = c \<and> list_all (is2 h w) x)"

definition is4 :: "nat \<Rightarrow> nat \<Rightarrow> nat \<Rightarrow> nat \<Rightarrow> 'a list list list list \<Rightarrow> bool" where
  "is4 n c h w x = (length x = n \<and> list_all (is3 c h w) x)"

definition is5 :: "nat \<Rightarrow> nat \<Rightarrow> nat \<Rightarrow> nat \<Rightarrow> nat \<Rightarrow> 'a list list list list list \<Rightarrow> bool" where
  "is5 b c f h w x = (length x = b \<and> list_all (is4 c f h w) x)"

lemma those_map_Some: "\<forall>x \<in> set xs. f x = Some x \<Longrightarrow> those (map f xs) = Some xs"
  by (induction xs) auto

lemma bcast_same: "length xs = n \<Longrightarrow> bcast n xs = Some xs"
  by (simp add: bcast_def)

lemma bcast2_same: "is2 h w x \<Longrightarrow> bcast2 h w x = Some x"
  by (simp add: bcast2_def is2_def list_all_iff those_map_Some bcast_same)

lemma bcast3_same: "is3 c h w x \<Longrightarrow> bcast3 c h w x = Some x"
  by (simp add: bcast3_def is3_def list_all_iff those_map_Some bcast2_same bcast_same)

text \<open>
  The decoder treats the frames of a batch independently and returns images of the
  buffer's slot shape: the \<open>n\<close>-th image of the batch decode is the image that the
  decode of the \<open>n\<close>-th frame alone returns first, and it has shape \<open>(c, h, w)\<close>.
\<close>

definition framewise ::
  "('w, 'st) networks \<Rightarrow> ('w, 'st) entry option \<Rightarrow> nat \<Rightarrow> nat \<Rightarrow> nat \<Rightarrow> tensor4 \<Rightarrow> tensor4 \<Rightarrow> bool" where
  "framewise nets p c h w latents decoded =
     list_all2 (\<lambda>x im. (case vae_decode nets p [x] of [] \<Rightarrow> False | im0 # rest \<Rightarrow> im0 = im)
                       \<and> is3 c h w im) latents decoded"

lemma decode_loop_fold:
  assumes "framewise nets (prms ''vae'') c h w latents decoded"
      and "k \<le> length latents" "length buf = length latents"
  shows "fold (decode_loop nets prms c h w latents) [0..<k] (Inr buf)
           = Inr (take k decoded @ drop k buf)"
  using assms(2)
proof (induction k)
  case 0
  then show ?case by simp
next
  case (Suc k)
  have len: "length decoded = length latents"
    using assms(1) by (simp add: framewise_def list_all2_lengthD)
  have k: "k < length latents" using Suc.prems by simp
  have nth: "(case vae_decode nets (prms ''vae'') [latents ! k] of
                [] \<Rightarrow> False | im0 # rest \<Rightarrow> im0 = decoded ! k) \<and> is3 c h w (decoded ! k)"
    using assms(1) k unfolding framewise_def by (rule list_all2_nthD)
  then have sh: "is3 c h w (decoded ! k)" by simp
  from nth obtain rest where
    d: "vae_decode nets (prms ''vae'') [latents ! k] = decoded ! k # rest"
    by (cases "vae_decode nets (prms ''vae'') [latents ! k]") auto
  have upd: "(take k decoded @ drop k buf)[k := decoded ! k]
               = take (Suc k) decoded @ drop (Suc k) buf"
    using k len assms(3)
    by (simp add: list_update_append take_Suc_conv_app_nth upd_conv_take_nth_drop drop_Suc tl_drop)
  have "fold (decode_loop nets prms c h w latents) [0..<Suc k] (Inr buf)
        = decode_loop nets prms c h w latents k (Inr (take k decoded @ drop k buf))"
    using Suc by simp
  also have "\<dots> = Inr (take (Suc k) decoded @ drop (Suc k) buf)"
    by (simp add: decode_loop_def d at_set_def bcast3_same [OF sh] upd)
  finally show ?case .
qed

lemma decode_low_vram:
  assumes "framewise nets (prms ''vae'') (out_channels nets) (nat h) (nat w) latents decoded"
  shows "decode_latents nets True prms latents h w = Inr decoded"
proof -
  have len: "length decoded = length latents"
    using assms by (simp add: framewise_def list_all2_lengthD)
  show ?thesis
    unfolding decode_latents_def Let_def fori_loop_def
    using decode_loop_fold [where prms = prms and k = "length latents"
        and buf = "zeros4 (length latents) (out_channels nets) (nat h) (nat w)", OF assms]
    by (simp add: zeros4_def len)
qed

text \<open>
  Claim C9. For every batch of final latents on which the decoder works frame by frame
  (see \<open>framewise\<close>: the decoder is an external network, and the buffer of the
  low-memory mode has slots of shape (out_channels, height, width)), decoding one frame
  at a time into the preallocated buffer gives, frame for frame, the images of the
  single batch decode.
\<close>

theorem decode_modes_agree:
  "framewise nets (prms ''vae'') (out_channels nets) (nat h) (nat w) latents
     (vae_decode nets (prms ''vae'') latents) \<Longrightarrow>
   decode_latents nets True prms latents h w = decode_latents nets False prms latents h w \<and>
   decode_latents nets False prms latents h w = Inr (vae_decode nets (prms ''vae'') latents)"
  by (simp add: decode_low_vram) (simp add: decode_latents_def)

lemma list_all_replicate: "list_all P (replicate n x) = (n = 0 \<or> P x)"
  by (induction n) auto

lemma is2_replicate: "is2 h w (replicate h (replicate w v))"
  by (simp add: is2_def list_all_replicate)

lemma is3_replicate: "is3 c h w (replicate c (replicate h (replicate w v)))"
  by (simp add: is3_def list_all_replicate is2_replicate)

lemma is4_replicate: "is4 n c h w (replicate n (replicate c (replicate h (replicate w v))))"
  by (simp add: is4_def list_all_replicate is3_replicate)

lemma is5_replicate:
  "is5 b c f h w (replicate b (replicate c (replicate f (replicate h (replicate w v)))))"
  by (simp add: is5_def list_all_replicate is4_replicate)

theorem decode_modes_agree_witness:
  "decode_latents demo_nets True (params demo_self)
     [[[[0]], [[0]], [[0]], [[0]]], [[[1]], [[1]], [[1]], [[1]]]] 8 8
   = decode_latents demo_nets False (params demo_self)
     [[[[0]], [[0]], [[0]], [[0]]], [[[1]], [[1]], [[1]], [[1]]]] 8 8"
proof -
  have "is3 3 8 8 (replicate 3 (replicate 8 (replicate 8 (0::rat))))"
    by (rule is3_replicate)
  then have "framewise demo_nets (params demo_self ''vae'') (out_channels demo_nets) (nat 8) (nat 8)
          [[[[0]], [[0]], [[0]], [[0]]], [[[1]], [[1]], [[1]], [[1]]]]
          (vae_decode demo_nets (params demo_self ''vae'')
             [[[[0]], [[0]], [[0]], [[0]]], [[[1]], [[1]], [[1]], [[1]]]])"
    by (simp add: framewise_def demo_nets_def first_def)
  from decode_modes_agree [where prms = "params demo_self" and h = 8 and w = 8, OF this]
  show ?thesis by simp
qed

section \<open>The dtype of the latents\<close>

text \<open>
  The result dtype of a \<^verbatim>\<open>jax.numpy\<close> operation on two floating-point arrays: the
  common dtype, and float32 when they differ.
\<close>

fun promote :: "dtype \<Rightarrow> dtype \<Rightarrow> dtype" where
  "promote Float16 Float16 = Float16"
| "promote BFloat16 BFloat16 = BFloat16"
| "promote a b = Float32"

text \<open>
  The scheduler state is loaded with \<^verbatim>\<open>dtype = jnp.float32\<close> (lines 106 and 118),
  whatever the storage dtype of the inference object; \<^verbatim>\<open>init_noise_sigma\<close> has that
  dtype.
\<close>

definition scheduler_state_dtype :: "('net, 'tok, 'sch, 'w, 'st) inference \<Rightarrow> dtype" where
  "scheduler_state_dtype self = Float32"

text \<open>
  Line 288: \<^verbatim>\<open>jax.random.normal(rng, shape = latent_shape, dtype = jnp.float32)\<close>
  times \<^verbatim>\<open>init_noise_sigma\<close>. No \<^verbatim>\<open>astype\<close> follows: this array is the initial
  carry of the denoising loop of line 318.
\<close>

definition sampled_dtype :: "('net, 'tok, 'sch, 'w, 'st) inference \<Rightarrow> dtype" where
  "sampled_dtype self = Float32"

definition initial_latents_dtype :: "('net, 'tok, 'sch, 'w, 'st) inference \<Rightarrow> dtype" where
  "initial_latents_dtype self = promote (sampled_dtype self) (scheduler_state_dtype self)"

text \<open>
  Claim C6 against the code. The noise is sampled in float32 whatever the storage dtype,
  as the claim says; but the latents that enter the denoising loop are still float32:
  for an inference object with storage dtype float16 (or bfloat16) they have not been
  cast down, although the comment above line 288 announces the cast.
\<close>

theorem initial_latents_not_cast:
  "dtype demo_self = Float16 \<and>
   sampled_dtype demo_self = Float32 \<and>
   initial_latents_dtype demo_self = Float32 \<and>
   initial_latents_dtype demo_self \<noteq> dtype demo_self \<and>
   initial_latents_dtype (demo_self\<lparr>dtype := BFloat16\<rparr>) \<noteq> dtype (demo_self\<lparr>dtype := BFloat16\<rparr>)"
  by (simp add: initial_latents_dtype_def sampled_dtype_def scheduler_state_dtype_def demo_self_def)

section \<open>Number, size and order of the generated images\<close>

subsection \<open>Flattening batch and frames\<close>

lemma length_concat_uniform:
  "\<forall>xs \<in> set xss. length xs = n \<Longrightarrow> length (concat xss) = length xss * n"
  by (induction xss) auto

lemma nth_concat_uniform:
  "\<forall>xs \<in> set xss. length xs = n \<Longrightarrow> i < length xss \<Longrightarrow> j < n \<Longrightarrow>
   concat xss ! (i * n + j) = xss ! i ! j"
proof (induction xss arbitrary: i)
  case Nil
  then show ?case by simp
next
  case (Cons xs xss)
  show ?case
  proof (cases i)
    case 0
    then show ?thesis using Cons.prems by (simp add: nth_append)
  next
    case (Suc i')
    then have "concat (xs # xss) ! (i * n + j) = concat xss ! (i' * n + j)"
      using Cons.prems by (simp add: nth_append)
    then show ?thesis using Cons Suc by simp
  qed
qed

lemma transpose_rect:
  assumes "xs \<noteq> []" and "\<forall>x \<in> set xs. length x = f"
  shows "transpose xs = map (\<lambda>k. map (\<lambda>x. x ! k) xs) [0..<f]"
proof -
  have "transpose xs = map (\<lambda>i. map (\<lambda>j. xs ! j ! i) [0..<length xs]) [0..<f]"
    using assms by (intro transpose_rectangle) auto
  moreover have "map (\<lambda>j. xs ! j ! i) [0..<length xs] = map (\<lambda>x. x ! i) xs" for i
    by (rule nth_equalityI) auto
  ultimately show ?thesis by simp
qed

text \<open>\<^verbatim>\<open>latents[l, :, k, :, :]\<close>: frame \<open>k\<close> of batch slot \<open>l\<close>, all channels.\<close>

definition frame_at :: "'a list list list list list \<Rightarrow> nat \<Rightarrow> nat \<Rightarrow> 'a list list list" where
  "frame_at latents l k = map (\<lambda>chan. chan ! k) (latents ! l)"

lemma transpose_sample:
  assumes "is4 c f h w x" "0 < c"
  shows "transpose x = map (\<lambda>k. map (\<lambda>chan. chan ! k) x) [0..<f]"
    and "is4 f c h w (transpose x)"
proof -
  have ne: "x \<noteq> []" using assms by (auto simp: is4_def)
  have len: "\<forall>chan \<in> set x. length chan = f"
    using assms by (auto simp: is4_def is3_def list_all_iff)
  show t: "transpose x = map (\<lambda>k. map (\<lambda>chan. chan ! k) x) [0..<f]"
    by (rule transpose_rect [OF ne len])
  have "is2 h w (chan ! k)" if "chan \<in> set x" "k < f" for chan k
    using assms that by (auto simp: is4_def is3_def list_all_iff)
  then show "is4 f c h w (transpose x)"
    unfolding t using assms by (auto simp: is4_def is3_def list_all_iff)
qed

lemma rearrange_shape:
  assumes "is5 b c f h w L" "0 < c"
  shows "is4 (b * f) c h w (rearrange_bcfhw L)"
proof -
  have s: "\<forall>x \<in> set L. is4 f c h w (transpose x)"
  proof
    fix x assume "x \<in> set L"
    then have "is4 c f h w x" using assms(1) by (simp add: is5_def list_all_iff)
    then show "is4 f c h w (transpose x)" using assms(2) by (rule transpose_sample(2))
  qed
  then have "\<forall>xs \<in> set (map transpose L). length xs = f"
    by (auto simp: is4_def)
  then have "length (concat (map transpose L)) = length (map transpose L) * f"
    by (rule length_concat_uniform)
  then have "length (rearrange_bcfhw L) = b * f"
    unfolding rearrange_bcfhw_def using assms(1) by (simp add: is5_def)
  moreover have "list_all (is3 c h w) (rearrange_bcfhw L)"
    unfolding rearrange_bcfhw_def using s by (auto simp: list_all_iff is4_def)
  ultimately show ?thesis by (simp add: is4_def)
qed

lemma rearrange_nth:
  assumes "is5 b c f h w L" "0 < c" "l < b" "k < f"
  shows "rearrange_bcfhw L ! (l * f + k) = frame_at L l k"
proof -
  have s: "\<forall>x \<in> set L. is4 f c h w (transpose x)"
  proof
    fix x assume "x \<in> set L"
    then have "is4 c f h w x" using assms(1) by (simp add: is5_def list_all_iff)
    then show "is4 f c h w (transpose x)" using assms(2) by (rule transpose_sample(2))
  qed
  then have u: "\<forall>xs \<in> set (map transpose L). length xs = f"
    by (auto simp: is4_def)
  have lb: "l < length L" using assms by (simp add: is5_def)
  then have x: "is4 c f h w (L ! l)" using assms(1) by (auto simp: is5_def list_all_iff)
  have "rearrange_bcfhw L ! (l * f + k) = map transpose L ! l ! k"
    unfolding rearrange_bcfhw_def using lb assms(4) by (intro nth_concat_uniform [OF u]) simp_all
  also have "\<dots> = transpose (L ! l) ! k" using lb by simp
  also have "\<dots> = frame_at L l k"
    using assms(4) by (simp add: transpose_sample(1) [OF x assms(2)] frame_at_def)
  finally show ?thesis .
qed


subsection \<open>Shapes through the device computation\<close>

text \<open>
  What the proof of the claim about the output needs of the external collaborators: the
  VAE has channels, its scale factor is positive and divides 32, the scaling factor is
  not zero; the random generator returns an array of the requested shape; a scheduler
  step returns latents of the shape of the latents it is given; the decoder turns \<open>n\<close>
  latent frames into \<open>n\<close> images, enlarged by the scale factor.
\<close>

definition shape_contract :: "('w, 'st) networks \<Rightarrow> ('sch, 'w, 'st) sched_ops \<Rightarrow> int \<Rightarrow> bool" where
  "shape_contract nets sch vsf =
     (0 < latent_channels nets \<and> 0 < out_channels nets \<and> scaling_factor nets \<noteq> 0 \<and>
      0 < vsf \<and> vsf dvd 32 \<and>
      (\<forall>key b c f h w. is5 b c f h w (random_normal nets key [b, c, f, h, w])) \<and>
      (\<forall>sc st noise t lat b c f h w.
          is5 b c f h w lat \<longrightarrow> is5 b c f h w (fst (scheduler_step sch sc st noise t lat))) \<and>
      (\<forall>p n h w x.
          is4 n (latent_channels nets) h w x \<longrightarrow>
          is4 n (out_channels nets) (h * nat vsf) (w * nat vsf) (vae_decode nets p x)))"

lemma fold_invariant:
  "P init \<Longrightarrow> (\<And>i x. P x \<Longrightarrow> P (body i x)) \<Longrightarrow> P (fold body xs init)"
  by (induction xs arbitrary: init) auto

lemma is2_map: "is2 h w x \<Longrightarrow> is2 h w (map (map g) x)"
  by (auto simp: is2_def list_all_iff)

lemma is3_map: "is3 c h w x \<Longrightarrow> is3 c h w (map (map (map g)) x)"
  by (auto simp: is3_def list_all_iff is2_map)

lemma is4_map4: "is4 n c h w x \<Longrightarrow> is4 n c h w (map4 g x)"
  by (auto simp: is4_def list_all_iff is3_map map4_def)

lemma is5_map5: "is5 b c f h w x \<Longrightarrow> is5 b c f h w (map5 g x)"
  by (auto simp: is5_def list_all_iff is4_map4 map5_def)

lemma denoise_shape:
  fixes nets :: "('w, 'st) networks" and sch :: "('sch, 'w, 'st) sched_ops"
  assumes c: "shape_contract nets sch (vae_scale_factor self)"
  shows "\<exists>L. denoise nets sch self tokens neg_tokens hint msk steps frames h w cfg_val rng prms = Inr L \<and>
             is5 (length tokens) (latent_channels nets) (nat frames)
                 (nat (h div vae_scale_factor self)) (nat (w div vae_scale_factor self)) L"
proof -
  let ?P = "\<lambda>a :: tensor5 \<times> 'st. is5 (length tokens) (latent_channels nets) (nat frames)
                 (nat (h div vae_scale_factor self)) (nat (w div vae_scale_factor self)) (fst a)"
  have step: "?P (sample_loop nets sch self prms cfg_val e1 e2 m hh i a)" if "?P a" for e1 e2 m hh i a
    using that c by (cases a) (simp add: sample_loop_def Let_def shape_contract_def)
  have init: "?P (map5 g (random_normal nets rng [length tokens, latent_channels nets, nat frames,
                 nat (h div vae_scale_factor self), nat (w div vae_scale_factor self)]), st)" for g st
    using c by (simp add: shape_contract_def is5_map5)
  have "?P (fold (sample_loop nets sch self prms cfg_val e1 e2 m hh) xs
              (map5 g (random_normal nets rng [length tokens, latent_channels nets, nat frames,
                 nat (h div vae_scale_factor self), nat (w div vae_scale_factor self)]), st))"
    for e1 e2 m hh xs g st
    by (rule fold_invariant [where P = ?P, OF init step])
  then show ?thesis
    using c unfolding denoise_def Let_def fori_loop_def
    by (simp add: shape_contract_def is5_map5)
qed


lemma latent_dim:
  assumes "0 < (h::int)" "h mod 32 = 0" "0 < vsf" "vsf dvd 32"
  shows "nat (h div vsf) * nat vsf = nat h"
proof -
  have "vsf dvd h" using assms(2,4) by (meson dvd_trans mod_0_imp_dvd)
  then have "h div vsf * vsf = h" by simp
  moreover have "0 \<le> h div vsf" using assms(1,3) by (simp add: pos_imp_zdiv_nonneg_iff)
  ultimately show ?thesis using assms(3)
    by (metis nat_mult_distrib)
qed

lemma decode_shape:
  fixes nets :: "('w, 'st) networks" and sch :: "('sch, 'w, 'st) sched_ops"
  assumes c: "shape_contract nets sch vsf"
      and F: "is4 n (latent_channels nets) lh lw F"
      and hw: "lh * nat vsf = nat h" "lw * nat vsf = nat w"
  shows "\<exists>D. decode_latents nets low prms F h w = Inr D \<and>
             is4 n (out_channels nets) (nat h) (nat w) D"
proof (cases low)
  case False
  have "is4 n (out_channels nets) (nat h) (nat w) (vae_decode nets (prms ''vae'') F)"
    using c F hw unfolding shape_contract_def by metis
  then show ?thesis using False by (simp add: decode_latents_def)
next
  case True
  let ?p = "prms ''vae''"
  let ?D = "map (\<lambda>x. hd (vae_decode nets ?p [x])) F"
  have one: "\<exists>im. vae_decode nets ?p [x] = [im] \<and> is3 (out_channels nets) (nat h) (nat w) im"
    if "x \<in> set F" for x
  proof -
    have "is4 1 (latent_channels nets) lh lw [x]"
      using that F by (simp add: is4_def list_all_iff)
    then have "is4 1 (out_channels nets) (nat h) (nat w) (vae_decode nets ?p [x])"
      using c hw unfolding shape_contract_def by metis
    then show ?thesis
      by (cases "vae_decode nets ?p [x]") (auto simp: is4_def)
  qed
  have el: "(case vae_decode nets ?p [x] of [] \<Rightarrow> False
             | im0 # rest \<Rightarrow> im0 = hd (vae_decode nets ?p [x])) \<and>
            is3 (out_channels nets) (nat h) (nat w) (hd (vae_decode nets ?p [x]))"
    if "x \<in> set F" for x
    using one [OF that] by auto
  have fw: "framewise nets ?p (out_channels nets) (nat h) (nat w) F ?D"
    unfolding framewise_def list_all2_map2
    by (rule list_all2_all_nthI) (use el in \<open>simp_all\<close>)
  have "is4 n (out_channels nets) (nat h) (nat w) ?D"
    using F el by (simp add: is4_def list_all_iff)
  then show ?thesis
    using True decode_low_vram [where prms = prms, OF fw] by auto
qed


text \<open>The image that \<^verbatim>\<open>generate\<close> makes of one decoded frame.\<close>

definition to_image :: "rat list list list \<Rightarrow> out_image" where
  "to_image x = image_fromarray (to_channel_last (map (map (map to_uint8)) x))"

lemma to_channel_last_shape:
  assumes "is3 c h w x" "0 < c" "0 < h"
  shows "is3 h w c (to_channel_last x)"
proof -
  have ne: "x \<noteq> []" using assms by (auto simp: is3_def)
  have len: "\<forall>ch \<in> set x. length ch = h"
    using assms by (auto simp: is3_def is2_def list_all_iff)
  have t: "transpose x = map (\<lambda>j. map (\<lambda>ch. ch ! j) x) [0..<h]"
    by (rule transpose_rect [OF ne len])
  have row: "transpose (map (\<lambda>ch. ch ! j) x) = map (\<lambda>k. map (\<lambda>r. r ! k) (map (\<lambda>ch. ch ! j) x)) [0..<w]"
    if "j < h" for j
    using ne assms that
    by (intro transpose_rect) (auto simp: is3_def is2_def list_all_iff)
  have "is2 w c (transpose (map (\<lambda>ch. ch ! j) x))" if "j < h" for j
    unfolding row [OF that] using assms by (simp add: is2_def is3_def list_all_iff)
  then show ?thesis
    unfolding to_channel_last_def t by (simp add: is3_def list_all_iff)
qed

lemma to_image_size:
  assumes "is3 c h w x" "0 < c" "0 < h"
  shows "oi_size (to_image x) = (int w, int h)"
proof -
  have "is3 c h w (map (map (map to_uint8)) x)" using assms(1) by (rule is3_map)
  then have s: "is3 h w c (to_channel_last (map (map (map to_uint8)) x))"
    using assms(2,3) by (rule to_channel_last_shape)
  then obtain r rs where "to_channel_last (map (map (map to_uint8)) x) = r # rs" "length r = w"
    using assms(3) by (cases "to_channel_last (map (map (map to_uint8)) x)")
      (auto simp: is3_def is2_def)
  then show ?thesis using s
    by (simp add: to_image_def image_fromarray_def first_def is3_def)
qed

lemma device_result:
  fixes nets :: "('w, 'st) networks" and sch :: "('sch, 'w, 'st) sched_ops"
  assumes c: "shape_contract nets sch (vae_scale_factor self)"
      and hw: "0 < h" "h mod 32 = 0" "0 < w" "w mod 32 = 0"
  shows "\<exists>L D. denoise nets sch self tokens neg_tokens hint msk steps frames h w cfg_val rng prms = Inr L \<and>
          is5 (length tokens) (latent_channels nets) (nat frames)
              (nat (h div vae_scale_factor self)) (nat (w div vae_scale_factor self)) L \<and>
          decode_latents nets (low_vram self) prms (rearrange_bcfhw L) h w = Inr D \<and>
          is4 (length tokens * nat frames) (out_channels nets) (nat h) (nat w) D \<and>
          generate_on_device nets sch self tokens neg_tokens hint msk steps frames h w cfg_val rng prms
            = Inr (map4 to_uint8 D)"
proof -
  let ?v = "vae_scale_factor self"
  from denoise_shape [OF c] obtain L where
    L: "denoise nets sch self tokens neg_tokens hint msk steps frames h w cfg_val rng prms = Inr L"
       "is5 (length tokens) (latent_channels nets) (nat frames) (nat (h div ?v)) (nat (w div ?v)) L"
    by blast
  have pos: "0 < latent_channels nets" "0 < ?v" "?v dvd 32"
    using c by (simp_all add: shape_contract_def)
  have F: "is4 (length tokens * nat frames) (latent_channels nets) (nat (h div ?v)) (nat (w div ?v))
             (rearrange_bcfhw L)"
    using L(2) pos(1) by (rule rearrange_shape)
  have d: "nat (h div ?v) * nat ?v = nat h" "nat (w div ?v) * nat ?v = nat w"
    using hw pos by (simp_all add: latent_dim)
  from decode_shape [OF c F d] obtain D where
    D: "decode_latents nets (low_vram self) prms (rearrange_bcfhw L) h w = Inr D"
       "is4 (length tokens * nat frames) (out_channels nets) (nat h) (nat w) D"
    by blast
  show ?thesis using L D by (auto simp: generate_on_device_def)
qed


subsection \<open>The host side\<close>

lemma validate_valid:
  assumes "0 < dev_count" "\<not> invalid_request dev_count h r" "0 < batch_size_of r"
  shows "\<exists>v. validate dev_count h r = Inr v \<and>
             length (v_prompt v) = batch_size_of r \<and>
             load h (v_hint v) \<noteq> [] \<and> load h (v_mask v) \<noteq> []"
  using assms
  unfolding validate_def invalid_request_def batch_size_of_def Let_def
  by (auto split: str_arg.splits img_arg.splits option.splits list.splits)

lemma length_shard: "length (shard d xs) = d"
  by (simp add: shard_def Let_def)

lemma length_shard_nth:
  assumes "length xs mod d = 0" "i < d"
  shows "length (shard d xs ! i) = length xs div d"
proof -
  have "Suc i * (length xs div d) \<le> d * (length xs div d)"
    using assms(2) by (intro mult_le_mono1) simp
  also have "\<dots> = length xs" using assms(1) by auto
  finally show ?thesis using assms(2) by (simp add: shard_def Let_def)
qed

lemma collect_all_Inr:
  "\<forall>x \<in> set xs. g x = Inr (f x) \<Longrightarrow> collect (map g xs) = Inr (map f xs)"
  by (induction xs) auto

lemma prepare_inputs_ok:
  assumes tok: "\<forall>ps. \<exists>t. tok ps = Inr t \<and> length t = length ps"
      and rs: "\<forall>im. \<not> isl (resize im (w, h))"
      and ne: "load (heap s) hint \<noteq> []" "load (heap s) msk \<noteq> []"
  shows "\<exists>tokens neg_tokens hint_t mask_t s1.
           prepare_inputs tok resize ps ns hint msk w h s
             = (Inr (tokens, neg_tokens, hint_t, mask_t), s1) \<and>
           length tokens = length ps"
proof -
  obtain t1 t2 where t: "tok ps = Inr t1" "length t1 = length ps" "tok ns = Inr t2"
    using tok by metis
  show ?thesis
    unfolding prepare_inputs_def t Let_def
    using ne t(2)
    by (auto simp: resize_arg_ok [where resize = resize and wh = "(w, h)", OF rs]
             split: img_list.splits)
qed


lemma generate_sizes_nonneg:
  assumes "fst (generate tok resize nets sch self r s) = Inr imgs"
  shows "list_all (\<lambda>im. 0 \<le> fst (oi_size im)) imgs"
  using assms
  by (auto simp: generate_def Let_def list_all_iff image_fromarray_def
           split: sum.splits prod.splits)


text \<open>
  Claim C1, as stated, fails on two requests that pass every check of lines 191 to 209.
  With an empty prompt list (batch size 0, a multiple of every device count) and empty
  hint and mask lists, \<^verbatim>\<open>jnp.concatenate\<close> of no arrays raises in
  \<^verbatim>\<open>prepare_inputs\<close>: no (empty) list of images is returned. With width \<open>-32\<close>, which
  32 divides, no returned image can have the size (width, height), whatever the
  externals do: the size of an image made by \<^verbatim>\<open>Image.fromarray\<close> is not negative.
\<close>

theorem generate_output_counterexample:
  "\<not> invalid_request (device_count demo_self) (heap demo_state)
       (demo_request\<lparr>prompt := StrList [], hint_image := ImgList 1,
                      mask_image := Some (ImgList 1), neg_prompt := StrList []\<rparr>) \<and>
   fst (generate demo_tok demo_resize demo_nets demo_sched demo_self
         (demo_request\<lparr>prompt := StrList [], hint_image := ImgList 1,
                        mask_image := Some (ImgList 1), neg_prompt := StrList []\<rparr>) demo_state)
     = Inl ValueError \<and>
   \<not> invalid_request (device_count demo_self) (heap demo_state) (demo_request\<lparr>width := - 32\<rparr>) \<and>
   \<not> (\<exists>imgs. fst (generate demo_tok demo_resize demo_nets demo_sched demo_self
                      (demo_request\<lparr>width := - 32\<rparr>) demo_state) = Inr imgs \<and>
              length imgs = 1 \<and>
              list_all (\<lambda>im. oi_size im = (- 32, 32)) imgs)"
proof -
  let ?r0 = "demo_request\<lparr>prompt := StrList [], hint_image := ImgList 1,
                      mask_image := Some (ImgList 1), neg_prompt := StrList []\<rparr>"
  have a: "\<not> invalid_request (device_count demo_self) (heap demo_state) ?r0"
    by (simp add: invalid_request_def demo_request_def demo_self_def demo_state_def batch_size_of_def)
  have v: "validate (device_count demo_self) (heap demo_state) ?r0
             = Inr \<lparr>v_prompt = [], v_neg_prompt = [], v_hint = Caller 1, v_mask = Caller 1,
                    v_batch_size = 0\<rparr>"
    by (simp add: validate_def demo_request_def demo_self_def demo_state_def)
  have b: "fst (generate demo_tok demo_resize demo_nets demo_sched demo_self ?r0 demo_state)
             = Inl ValueError"
    unfolding generate_def v
    by (simp add: prepare_inputs_def demo_tok_def resize_arg_def resize_list_def
          demo_state_def Let_def)
  have c: "\<not> invalid_request (device_count demo_self) (heap demo_state) (demo_request\<lparr>width := - 32\<rparr>)"
    by (simp add: invalid_request_def demo_request_def demo_self_def demo_state_def batch_size_of_def
          demo_image_def)
  have d: False
    if "fst (generate demo_tok demo_resize demo_nets demo_sched demo_self
               (demo_request\<lparr>width := - 32\<rparr>) demo_state) = Inr imgs"
       "length imgs = 1" "list_all (\<lambda>im. oi_size im = (- 32, 32)) imgs" for imgs
  proof -
    from that(2) obtain im where "imgs = [im]" by (cases imgs) auto
    then show False using generate_sizes_nonneg [OF that(1)] that(3) by simp
  qed
  show ?thesis using a b c d by blast
qed


text \<open>
  Claim C1, amended. For every request that passes the checks (it is not invalid: steps
  and frames positive, 32 divides width and height, the device count divides the batch
  size, list arguments have the length of the batch) and has a non-empty batch and
  positive width and height, with externals that do not raise and respect shapes
  (\<open>shape_contract\<close>): \<^verbatim>\<open>generate\<close> returns exactly \<open>batch_size * num_frames\<close>
  images, each of size (width, height); and the image at position
  \<open>(i * b + l) * num_frames + k\<close>, for device \<open>i\<close>, slot \<open>l\<close> of the \<open>b\<close> slots of that
  device and frame \<open>k\<close>, is the image decoded from frame \<open>k\<close> of batch slot
  \<open>i * b + l\<close>: slots in order, and the frames of a slot in order.
\<close>

theorem generate_output:
  fixes nets :: "('w, 'st) networks" and sch :: "('sch, 'w, 'st) sched_ops"
    and self :: "('net, 'tok, 'sch, 'w, 'st) inference"
  assumes dc: "0 < device_count self"
      and valid: "\<not> invalid_request (device_count self) (heap s) r"
      and pos: "0 < batch_size_of r" "0 < width r" "0 < height r"
      and tok: "\<forall>ps. \<exists>t. tok ps = Inr t \<and> length t = length ps"
      and rs: "\<forall>im. \<not> isl (resize im (width r, height r))"
      and c: "shape_contract nets sch (vae_scale_factor self)"
  shows "\<exists>v tokens neg_tokens hint msk s1 imgs.
           validate (device_count self) (heap s) r = Inr v \<and>
           prepare_inputs tok resize (v_prompt v) (v_neg_prompt v) (v_hint v) (v_mask v)
             (width r) (height r) s = (Inr (tokens, neg_tokens, hint, msk), s1) \<and>
           generate tok resize nets sch self r s = (Inr imgs, s1\<lparr>trace := trace s1 @ [Dispatch]\<rparr>) \<and>
           length imgs = batch_size_of r * nat (num_frames r) \<and>
           list_all (\<lambda>im. oi_size im = (width r, height r)) imgs \<and>
           (\<forall>i l k. i < device_count self \<and> l < batch_size_of r div device_count self \<and>
                    k < nat (num_frames r) \<longrightarrow>
              (\<exists>L D.
                 denoise nets sch self
                   (shard (device_count self) tokens ! i) (shard (device_count self) neg_tokens ! i)
                   (shard (device_count self) hint ! i) (shard (device_count self) msk ! i)
                   (inference_steps r) (num_frames r) (height r) (width r) (cfg r)
                   (seed r + int i) (params self) = Inr L \<and>
                 rearrange_bcfhw L ! (l * nat (num_frames r) + k) = frame_at L l k \<and>
                 decode_latents nets (low_vram self) (params self) (rearrange_bcfhw L)
                   (height r) (width r) = Inr D \<and>
                 imgs ! ((i * (batch_size_of r div device_count self) + l) * nat (num_frames r) + k)
                   = to_image (D ! (l * nat (num_frames r) + k))))"
proof -
  let ?d = "device_count self" and ?b = "batch_size_of r" and ?f = "nat (num_frames r)"
  let ?bl = "?b div ?d"
  let ?H = "nat (height r)" and ?W = "nat (width r)"
  from validate_valid [OF dc valid pos(1)] obtain v where
    v: "validate ?d (heap s) r = Inr v" "length (v_prompt v) = ?b"
       "load (heap s) (v_hint v) \<noteq> []" "load (heap s) (v_mask v) \<noteq> []"
    by blast
  from prepare_inputs_ok [where resize = resize and w = "width r" and h = "height r",
      OF tok rs v(3,4)]
  obtain tokens neg_tokens hint msk s1 where
    p: "prepare_inputs tok resize (v_prompt v) (v_neg_prompt v) (v_hint v) (v_mask v)
          (width r) (height r) s = (Inr (tokens, neg_tokens, hint, msk), s1)"
    and lt: "length tokens = length (v_prompt v)"
    by blast
  have hw: "0 < height r" "height r mod 32 = 0" "0 < width r" "width r mod 32 = 0"
    and bd: "?b mod ?d = 0"
    using valid pos by (simp_all add: invalid_request_def)
  have dbl: "?d * ?bl = ?b" using bd by auto
  let ?g = "\<lambda>i. generate_on_device nets sch self
                 (shard ?d tokens ! i) (shard ?d neg_tokens ! i) (shard ?d hint ! i) (shard ?d msk ! i)
                 (inference_steps r) (num_frames r) (height r) (width r) (cfg r)
                 (seed r + int i) (params self)"
  have "\<forall>i. \<exists>L D.
          denoise nets sch self
            (shard ?d tokens ! i) (shard ?d neg_tokens ! i) (shard ?d hint ! i) (shard ?d msk ! i)
            (inference_steps r) (num_frames r) (height r) (width r) (cfg r)
            (seed r + int i) (params self) = Inr L \<and>
          is5 (length (shard ?d tokens ! i)) (latent_channels nets) ?f
              (nat (height r div vae_scale_factor self)) (nat (width r div vae_scale_factor self)) L \<and>
          decode_latents nets (low_vram self) (params self) (rearrange_bcfhw L) (height r) (width r)
            = Inr D \<and>
          is4 (length (shard ?d tokens ! i) * ?f) (out_channels nets) ?H ?W D \<and>
          ?g i = Inr (map4 to_uint8 D)"
    using device_result [OF c hw] by blast
  then obtain Lf Df where dev: "\<And>i.
          denoise nets sch self
            (shard ?d tokens ! i) (shard ?d neg_tokens ! i) (shard ?d hint ! i) (shard ?d msk ! i)
            (inference_steps r) (num_frames r) (height r) (width r) (cfg r)
            (seed r + int i) (params self) = Inr (Lf i) \<and>
          is5 (length (shard ?d tokens ! i)) (latent_channels nets) ?f
              (nat (height r div vae_scale_factor self)) (nat (width r div vae_scale_factor self)) (Lf i) \<and>
          decode_latents nets (low_vram self) (params self) (rearrange_bcfhw (Lf i)) (height r) (width r)
            = Inr (Df i) \<and>
          is4 (length (shard ?d tokens ! i) * ?f) (out_channels nets) ?H ?W (Df i) \<and>
          ?g i = Inr (map4 to_uint8 (Df i))"
    by metis
  have lsh: "length (shard ?d tokens ! i) = ?bl" if "i < ?d" for i
    using length_shard_nth [of tokens ?d i] that bd lt v(2) by simp
  have pg: "p_generate nets sch self (shard ?d tokens) (shard ?d neg_tokens) (shard ?d hint)
              (shard ?d msk) (inference_steps r) (num_frames r) (height r) (width r) (cfg r)
              (map (\<lambda>i. seed r + int i) [0..<?d]) (params self)
            = Inr (map (\<lambda>i. map4 to_uint8 (Df i)) [0..<?d])"
  proof -
    have "\<forall>i \<in> set [0..<?d].
            generate_on_device nets sch self
              (shard ?d tokens ! i) (shard ?d neg_tokens ! i) (shard ?d hint ! i) (shard ?d msk ! i)
              (inference_steps r) (num_frames r) (height r) (width r) (cfg r)
              (map (\<lambda>i. seed r + int i) [0..<?d] ! i) (params self)
            = Inr (map4 to_uint8 (Df i))"
      using dev by simp
    from collect_all_Inr [OF this] show ?thesis by (simp add: p_generate_def)
  qed
  define imgs where "imgs = concat (map (\<lambda>i. map to_image (Df i)) [0..<?d])"
  have conv: "map image_fromarray (map to_channel_last (concat (map (\<lambda>i. map4 to_uint8 (Df i)) [0..<?d])))
              = imgs"
  proof -
    have ti: "to_image = (\<lambda>x. image_fromarray (to_channel_last (map (map (map to_uint8)) x)))"
      by (rule ext) (simp add: to_image_def)
    show ?thesis by (simp add: imgs_def map_concat map4_def ti comp_def)
  qed
  have gen: "generate tok resize nets sch self r s = (Inr imgs, s1\<lparr>trace := trace s1 @ [Dispatch]\<rparr>)"
    using conv by (simp add: generate_def v(1) p Let_def pg)
  have D4: "is4 (?bl * ?f) (out_channels nets) ?H ?W (Df i)" if "i < ?d" for i
    using dev [of i] lsh [OF that] by simp
  have uni: "\<forall>xs \<in> set (map (\<lambda>i. map to_image (Df i)) [0..<?d]). length xs = ?bl * ?f"
    using D4 by (auto simp: is4_def)
  have len: "length imgs = ?b * ?f"
    unfolding imgs_def length_concat_uniform [OF uni] using dbl by (simp add: mult.assoc)
  have oc: "0 < out_channels nets" "0 < latent_channels nets"
    using c by (simp_all add: shape_contract_def)
  have sz: "list_all (\<lambda>im. oi_size im = (width r, height r)) imgs"
  proof -
    have "oi_size (to_image x) = (width r, height r)" if "i < ?d" "x \<in> set (Df i)" for i x
    proof -
      have "is3 (out_channels nets) ?H ?W x"
        using D4 [OF that(1)] that(2) by (simp add: is4_def list_all_iff)
      then have "oi_size (to_image x) = (int ?W, int ?H)"
        using oc(1) hw(1) by (intro to_image_size) simp_all
      then show ?thesis using hw by simp
    qed
    then show ?thesis by (auto simp: imgs_def list_all_iff)
  qed
  have ord: "\<exists>L D.
       denoise nets sch self
         (shard ?d tokens ! i) (shard ?d neg_tokens ! i) (shard ?d hint ! i) (shard ?d msk ! i)
         (inference_steps r) (num_frames r) (height r) (width r) (cfg r)
         (seed r + int i) (params self) = Inr L \<and>
       rearrange_bcfhw L ! (l * ?f + k) = frame_at L l k \<and>
       decode_latents nets (low_vram self) (params self) (rearrange_bcfhw L) (height r) (width r)
         = Inr D \<and>
       imgs ! ((i * ?bl + l) * ?f + k) = to_image (D ! (l * ?f + k))"
    if "i < ?d" "l < ?bl" "k < ?f" for i l k
  proof -
    have L5: "is5 ?bl (latent_channels nets) ?f
               (nat (height r div vae_scale_factor self)) (nat (width r div vae_scale_factor self)) (Lf i)"
      using dev [of i] lsh [OF that(1)] by simp
    have fr: "rearrange_bcfhw (Lf i) ! (l * ?f + k) = frame_at (Lf i) l k"
      using L5 oc(2) that(2,3) by (rule rearrange_nth)
    have j: "l * ?f + k < ?bl * ?f"
    proof -
      have "l * ?f + k < Suc l * ?f" using that(3) by simp
      also have "\<dots> \<le> ?bl * ?f" using that(2) by (intro mult_le_mono1) simp
      finally show ?thesis .
    qed
    have "imgs ! (i * (?bl * ?f) + (l * ?f + k))
            = map (\<lambda>i. map to_image (Df i)) [0..<?d] ! i ! (l * ?f + k)"
      unfolding imgs_def using that(1) j by (intro nth_concat_uniform [OF uni]) simp_all
    also have "\<dots> = to_image (Df i ! (l * ?f + k))"
      using that(1) j D4 [OF that(1)] by (simp add: is4_def)
    finally have "imgs ! ((i * ?bl + l) * ?f + k) = to_image (Df i ! (l * ?f + k))"
      by (simp add: algebra_simps)
    then show ?thesis using dev [of i] fr by blast
  qed
  show ?thesis
    using v(1) p gen len sz ord by blast
qed


lemma demo_decode_shape:
  assumes "is3 4 h w fr"
  shows "is3 3 (h * 8) (w * 8)
           (replicate 3 (replicate (8 * length (first fr))
              (replicate (8 * length (first (first fr))) (0::rat))))"
proof -
  obtain p ps where fr: "fr = p # ps" "length p = h" "list_all (\<lambda>row. length row = w) p"
    using assms by (cases fr) (auto simp: is3_def is2_def)
  show ?thesis
  proof (cases p)
    case Nil
    then have "h = 0" using fr by simp
    then show ?thesis using fr Nil by (simp add: first_def is3_def is2_def list_all_replicate)
  next
    case (Cons row rows)
    then have "length row = w" using fr(3) by simp
    then have e: "replicate (8 * length (first fr)) (replicate (8 * length (first (first fr))) (0::rat))
               = replicate (h * 8) (replicate (w * 8) 0)"
      using fr Cons by (simp add: first_def mult.commute)
    show ?thesis unfolding e by (rule is3_replicate)
  qed
qed

lemma demo_shape_contract: "shape_contract demo_nets demo_sched (vae_scale_factor demo_self)"
proof -
  have "\<forall>n h w x. is4 n 4 h w x \<longrightarrow> is4 n 3 (h * 8) (w * 8)
          (map (\<lambda>fr. replicate 3 (replicate (8 * length (first fr))
              (replicate (8 * length (first (first fr))) (0::rat)))) x)"
    by (auto simp: is4_def list_all_iff demo_decode_shape)
  then show ?thesis
    by (simp add: shape_contract_def demo_nets_def demo_sched_def demo_self_def is5_replicate)
qed


theorem generate_output_witness:
  "\<not> isl (fst (generate demo_tok demo_resize demo_nets demo_sched demo_self demo_request demo_state)) \<and>
   length (projr (fst (generate demo_tok demo_resize demo_nets demo_sched demo_self demo_request
                         demo_state))) = 1 \<and>
   list_all (\<lambda>im. oi_size im = (32, 32))
     (projr (fst (generate demo_tok demo_resize demo_nets demo_sched demo_self demo_request
                    demo_state)))"
proof -
  have dc: "0 < device_count demo_self" by (simp add: demo_self_def)
  have valid: "\<not> invalid_request (device_count demo_self) (heap demo_state) demo_request"
    by (simp add: invalid_request_def demo_request_def demo_self_def demo_state_def batch_size_of_def)
  have pos: "0 < batch_size_of demo_request" "0 < width demo_request" "0 < height demo_request"
    by (simp_all add: demo_request_def batch_size_of_def)
  have tok: "\<forall>ps. \<exists>t. demo_tok ps = Inr t \<and> length t = length ps"
    by (simp add: demo_tok_def)
  have rs: "\<forall>im. \<not> isl (demo_resize im (width demo_request, height demo_request))"
    by (simp add: demo_resize_def)
  from generate_output [where self = demo_self and s = demo_state and r = demo_request
      and tok = demo_tok and resize = demo_resize and nets = demo_nets and sch = demo_sched,
      OF dc valid pos tok rs demo_shape_contract]
  obtain imgs st where
    "generate demo_tok demo_resize demo_nets demo_sched demo_self demo_request demo_state
       = (Inr imgs, st)"
    "length imgs = batch_size_of demo_request * nat (num_frames demo_request)"
    "list_all (\<lambda>im. oi_size im = (width demo_request, height demo_request)) imgs"
    by blast
  then show ?thesis by (simp add: demo_request_def batch_size_of_def)
qed


end
